theory Spec2Isabelle
  imports Complex_Main "HOL-Library.AList" "HOL-Library.FSet" "HOL-Library.Sublist" "HOL-Library.Multiset"
begin

section \<open>Strings of the host language\<close>

text \<open>
  The program is TypeScript; its strings are sequences of UTF-16 code units. A string is
  modelled as a \<open>string\<close> whose characters are the code units 0 to 255 (ASCII and the
  Latin-1 supplement), which covers every literal the data pipeline compares against.
  The built-in string operations the pipeline calls are written out below.
\<close>

definition isWhiteSpace :: "char \<Rightarrow> bool" where
  \<comment> \<open>the code units below 256 that \<open>trim\<close> and \<open>parseInt\<close> skip: TAB, LF, VT, FF, CR, SP, NBSP\<close>
  "isWhiteSpace c \<longleftrightarrow>
     c \<in> {CHR 0x09, CHR 0x0A, CHR 0x0B, CHR 0x0C, CHR 0x0D, CHR 0x20, CHR 0xA0}"

definition isDigit :: "char \<Rightarrow> bool" where
  \<comment> \<open>the regular expression class \<open>\d\<close> and the radix-10 digits of \<open>parseInt\<close>\<close>
  "isDigit c \<longleftrightarrow> c \<in> set ''0123456789''"

definition trim :: "string \<Rightarrow> string" where
  \<comment> \<open>\<open>String.prototype.trim\<close>\<close>
  "trim s = rev (dropWhile isWhiteSpace (rev (dropWhile isWhiteSpace s)))"

definition toLowerChar :: "char \<Rightarrow> char" where
  "toLowerChar c =
     (let n = (of_char c :: nat)
      in if (65 \<le> n \<and> n \<le> 90) \<or> (192 \<le> n \<and> n \<le> 222 \<and> n \<noteq> 215)
         then char_of (n + 32) else c)"

definition toLowerCase :: "string \<Rightarrow> string" where
  \<comment> \<open>\<open>String.prototype.toLowerCase\<close>\<close>
  "toLowerCase s = map toLowerChar s"

fun split_on :: "char \<Rightarrow> string \<Rightarrow> string list" where
  \<comment> \<open>\<open>s.split(sep)\<close> for a one-character separator; the empty string gives one empty piece\<close>
  "split_on sep [] = [[]]"
| "split_on sep (c # cs) =
     (if c = sep then [] # split_on sep cs
      else (case split_on sep cs of
              [] \<Rightarrow> [[c]]
            | w # ws \<Rightarrow> (c # w) # ws))"

fun join :: "string \<Rightarrow> string list \<Rightarrow> string" where
  \<comment> \<open>\<open>Array.prototype.join\<close> on an array of strings\<close>
  "join sep [] = []"
| "join sep [x] = x"
| "join sep (x # y # ys) = x @ sep @ join sep (y # ys)"

definition array_includes :: "'a list \<Rightarrow> 'a \<Rightarrow> bool" where
  \<comment> \<open>\<open>Array.prototype.includes\<close>\<close>
  "array_includes xs x \<longleftrightarrow> x \<in> set xs"

fun some :: "('a \<Rightarrow> bool) \<Rightarrow> 'a list \<Rightarrow> bool" where
  \<comment> \<open>\<open>Array.prototype.some\<close>: stops at the first element the callback accepts\<close>
  "some p [] = False"
| "some p (x # xs) = (if p x then True else some p xs)"

fun every :: "('a \<Rightarrow> bool) \<Rightarrow> 'a list \<Rightarrow> bool" where
  \<comment> \<open>\<open>Array.prototype.every\<close>\<close>
  "every p [] = True"
| "every p (x # xs) = (if p x then every p xs else False)"

subsection \<open>Numbers and their text\<close>

text \<open>
  A \<open>number\<close> is a double. The integers of magnitude below \<open>2^53\<close> (the safe integers) are
  held exactly and print as their decimal numeral. Beyond them a \<open>number\<close> holds an
  integer only rounded, and its text is the engine's shortest form, in exponent notation
  from \<open>10^21\<close> on; that text is not computed here but taken as a parameter \<open>hostText\<close>
  of the functions that print numbers. A value handled by the program with no fixed type
  (a member of the array \<open>parts\<close>, a property of a decoded row) is a \<open>jsval\<close>: \<open>Num n\<close> is the
  number \<open>n\<close>, and \<open>Rounded v\<close> is the number nearest to an integer \<open>v\<close> that is not safe, which
  is what \<open>parseInt\<close> returns for a run of digits that long.
\<close>

datatype jsval = Undefined | Str string | Num int | Rounded int

definition safe_integer :: "int \<Rightarrow> bool" where
  \<comment> \<open>\<open>Number.isSafeInteger\<close>\<close>
  "safe_integer n \<longleftrightarrow> \<bar>n\<bar> < 2 ^ 53"

definition to_number :: "int \<Rightarrow> jsval" where
  \<comment> \<open>the number that the mathematical value \<open>v\<close> of a numeral becomes\<close>
  "to_number v = (if safe_integer v then Num v else Rounded v)"

definition digitChar :: "nat \<Rightarrow> char" where
  "digitChar d = ''0123456789'' ! d"

definition digitVal :: "char \<Rightarrow> nat" where
  "digitVal c = of_char c - 48"

function natToString :: "nat \<Rightarrow> string" where
  "natToString n =
     (if n < 10 then [digitChar n] else natToString (n div 10) @ [digitChar (n mod 10)])"
  by pat_completeness auto
termination
  by (relation "measure id") auto

declare natToString.simps [simp del]

definition decimal_text :: "int \<Rightarrow> string" where
  \<comment> \<open>the decimal numeral of an integer\<close>
  "decimal_text n =
     (if n < 0 then CHR ''-'' # natToString (nat (- n)) else natToString (nat n))"

definition numberToString :: "(jsval \<Rightarrow> string) \<Rightarrow> int \<Rightarrow> string" where
  \<comment> \<open>\<open>String(n)\<close> for the number \<open>n\<close>: the decimal numeral when \<open>n\<close> is a safe integer\<close>
  "numberToString hostText n =
     (if safe_integer n then decimal_text n else hostText (Num n))"

definition digitsValue :: "string \<Rightarrow> nat" where
  "digitsValue ds = foldl (\<lambda>a c. 10 * a + digitVal c) 0 ds"

definition parseInt :: "string \<Rightarrow> jsval option" where
  \<comment> \<open>\<open>parseInt(s, 10)\<close>: it skips leading white space, reads an optional sign and the longest
     run of digits after it; \<open>None\<close> is \<open>NaN\<close>, the result when that run is empty\<close>
  "parseInt s =
     (let t = dropWhile isWhiteSpace s;
          neg = (t \<noteq> [] \<and> hd t = CHR ''-'');
          u = (if t \<noteq> [] \<and> (hd t = CHR ''-'' \<or> hd t = CHR ''+'') then tl t else t);
          ds = takeWhile isDigit u
      in if ds = [] then None
         else Some (to_number (if neg then - int (digitsValue ds) else int (digitsValue ds))))"

section \<open>Normalising a generation\<close>

text \<open>
  \<^verbatim>\<open>const cleanGeneration = (val: string): string => {
    const match = val.match(/\d+/);
    return match ? match[0] : val;
  };\<close>
  The regular expression is tried at each position from the left; at the first position
  where a digit stands it takes all the digits that follow (\<open>+\<close> is greedy).
\<close>

fun match_digits :: "string \<Rightarrow> string option" where
  "match_digits [] = None"
| "match_digits (c # cs) =
     (if isDigit c then Some (takeWhile isDigit (c # cs)) else match_digits cs)"

definition cleanGeneration :: "string \<Rightarrow> string" where
  "cleanGeneration val = (case match_digits val of Some m \<Rightarrow> m | None \<Rightarrow> val)"

section \<open>The record model\<close>

text \<open>
  \<^verbatim>\<open>export interface VehicleRecord {
    Manufacturer: string; Model: string; Generation: string; Model_Code: string;
    Start_Year: number; End_Year: string;
  }\<close>
  \<open>ExpansionSuggestion\<close> has the same six fields, so a suggestion is a \<open>VehicleRecord\<close>.
\<close>

record VehicleRecord =
  Manufacturer :: string
  Model :: string
  Generation :: string
  Model_Code :: string
  Start_Year :: int
  End_Year :: string

definition toString :: "(jsval \<Rightarrow> string) \<Rightarrow> jsval \<Rightarrow> string" where
  \<comment> \<open>\<open>String(v)\<close>\<close>
  "toString hostText v =
     (case v of
        Undefined \<Rightarrow> ''undefined''
      | Str s \<Rightarrow> s
      | Num n \<Rightarrow> numberToString hostText n
      | Rounded d \<Rightarrow> hostText (Rounded d))"

definition or_empty :: "jsval \<Rightarrow> jsval" where
  \<comment> \<open>\<open>p || ''\<close>: a falsy value (\<open>undefined\<close>, the empty string, the number 0) gives \<open>''\<close>\<close>
  "or_empty p = (case p of
                   Undefined \<Rightarrow> Str []
                 | Str s \<Rightarrow> Str s
                 | Num n \<Rightarrow> (if n = 0 then Str [] else Num n)
                 | Rounded d \<Rightarrow> Rounded d)"

section \<open>Sorting\<close>

text \<open>
  \<open>sortDatabase\<close> copies the array and sorts it with a comparator: manufacturer, then
  model, both by \<open>localeCompare\<close>, then \<open>a.Start_Year - b.Start_Year\<close>. The result of
  \<open>localeCompare\<close> depends on the host's collation data, so it is a parameter here.
  \<open>Array.prototype.sort\<close> is stable; it is modelled by the stable insertion sort.
\<close>

definition compareRecords ::
  "(string \<Rightarrow> string \<Rightarrow> int) \<Rightarrow> VehicleRecord \<Rightarrow> VehicleRecord \<Rightarrow> int" where
  "compareRecords localeCompare a b =
     (let mCompare = localeCompare (Manufacturer a) (Manufacturer b)
      in if mCompare \<noteq> 0 then mCompare
         else (let modelCompare = localeCompare (Model a) (Model b)
               in if modelCompare \<noteq> 0 then modelCompare
                  else Start_Year a - Start_Year b))"

fun insert_by :: "('a \<Rightarrow> 'a \<Rightarrow> int) \<Rightarrow> 'a \<Rightarrow> 'a list \<Rightarrow> 'a list" where
  "insert_by cmp x [] = [x]"
| "insert_by cmp x (y # ys) =
     (if cmp x y > 0 then y # insert_by cmp x ys else x # y # ys)"

definition array_sort :: "('a \<Rightarrow> 'a \<Rightarrow> int) \<Rightarrow> 'a list \<Rightarrow> 'a list" where
  "array_sort cmp xs = foldr (insert_by cmp) xs []"

definition sortDatabase ::
  "(string \<Rightarrow> string \<Rightarrow> int) \<Rightarrow> VehicleRecord list \<Rightarrow> VehicleRecord list" where
  "sortDatabase localeCompare data = array_sort (compareRecords localeCompare) data"

section \<open>Duplicates and identity keys\<close>

text \<open>
  \<^verbatim>\<open>export const isDuplicate = (existing, record) =>
    existing.some(item =>
      item.Manufacturer.toLowerCase() === record.Manufacturer.toLowerCase() &&
      item.Model.toLowerCase() === record.Model.toLowerCase() &&
      item.Generation.toLowerCase() === record.Generation.toLowerCase() &&
      item.Model_Code.toLowerCase() === record.Model_Code.toLowerCase() &&
      item.Start_Year === record.Start_Year);\<close>
\<close>

definition isDuplicate :: "VehicleRecord list \<Rightarrow> VehicleRecord \<Rightarrow> bool" where
  "isDuplicate existing record =
     some (\<lambda>item.
        toLowerCase (Manufacturer item) = toLowerCase (Manufacturer record) \<and>
        toLowerCase (Model item) = toLowerCase (Model record) \<and>
        toLowerCase (Generation item) = toLowerCase (Generation record) \<and>
        toLowerCase (Model_Code item) = toLowerCase (Model_Code record) \<and>
        Start_Year item = Start_Year record) existing"

text \<open>
  \<^verbatim>\<open>const getRecordKey = useCallback((v: VehicleRecord) => {
    if (!v) return '';
    const parts = [v.Manufacturer, v.Model, v.Generation, v.Model_Code, v.Start_Year, v.End_Year];
    return parts.map(p => String(p || '').trim().toLowerCase()).join('##');
  }, []);\<close>
  The argument may be absent, so it is an option.
\<close>

definition getRecordKey :: "(jsval \<Rightarrow> string) \<Rightarrow> VehicleRecord option \<Rightarrow> string" where
  "getRecordKey hostText v' =
     (case v' of
        None \<Rightarrow> []
      | Some v \<Rightarrow>
          (let parts = [Str (Manufacturer v), Str (Model v), Str (Generation v),
                        Str (Model_Code v), Num (Start_Year v), Str (End_Year v)]
           in join ''##'' (map (\<lambda>p. toLowerCase (trim (toString hostText (or_empty p)))) parts)))"

section \<open>The delimited-text codec\<close>

definition expectedHeaders :: "string list" where
  "expectedHeaders =
     [''Manufacturer'', ''Model'', ''Generation'', ''Model_Code'', ''Start_Year'', ''End_Year'']"

definition get_field :: "VehicleRecord \<Rightarrow> string \<Rightarrow> jsval" where
  \<comment> \<open>\<open>record[header]\<close> on a \<open>VehicleRecord\<close>\<close>
  "get_field record header =
     (if header = ''Manufacturer'' then Str (Manufacturer record)
      else if header = ''Model'' then Str (Model record)
      else if header = ''Generation'' then Str (Generation record)
      else if header = ''Model_Code'' then Str (Model_Code record)
      else if header = ''Start_Year'' then Num (Start_Year record)
      else if header = ''End_Year'' then Str (End_Year record)
      else Undefined)"

definition join_text :: "(jsval \<Rightarrow> string) \<Rightarrow> jsval \<Rightarrow> string" where
  \<comment> \<open>how \<open>Array.prototype.join\<close> prints an element: \<open>undefined\<close> prints as nothing\<close>
  "join_text hostText v = (case v of Undefined \<Rightarrow> [] | _ \<Rightarrow> toString hostText v)"

text \<open>
  \<^verbatim>\<open>export const convertToCSV = (data: VehicleRecord[]): string => {
    const headers = ['Manufacturer', 'Model', 'Generation', 'Model_Code', 'Start_Year', 'End_Year'];
    const rows = data.map(record =>
      headers.map(header => record[header as keyof VehicleRecord]).join(','));
    return [headers.join(','), ...rows].join('\n');
  };\<close>
\<close>

definition convertToCSV :: "(jsval \<Rightarrow> string) \<Rightarrow> VehicleRecord list \<Rightarrow> string" where
  "convertToCSV hostText data =
     (let headers = expectedHeaders;
          rows = map (\<lambda>record.
                   join '','' (map (\<lambda>header. join_text hostText (get_field record header)) headers))
                   data
      in join ''\<newline>'' (join '','' headers # rows))"

text \<open>
  \<open>parseCSV\<close> throws \<open>new Error(...)\<close> with one message for a bad header row and another,
  holding \<open>i + 1\<close> and the cell, for a year that does not parse; calling \<open>match\<close> on an
  absent cell is the runtime's \<open>TypeError\<close>. The three are the constructors of \<open>error\<close>.
  A cell \<open>values[index]\<close> is a string, or \<open>undefined\<close> (here \<open>None\<close>) beyond the end of the row.
  The object \<open>record\<close> that a row fills is an association list of its own properties;
  assigning to a property that exists replaces its value. On the name \<open>__proto__\<close> the
  assignment goes to the setter every object inherits, which ignores a string, a number
  and \<open>undefined\<close>, so no property is made. The program reads six properties of the
  object, by name, and never lists them.
\<close>

datatype error = FormatError | RowParseError nat string | TypeError

type_synonym obj = "(string \<times> jsval) list"

definition value_at :: "string list \<Rightarrow> nat \<Rightarrow> string option" where
  \<comment> \<open>\<open>values[index]\<close>: \<open>undefined\<close> beyond the end of the array\<close>
  "value_at values index = (if index < length values then Some (values ! index) else None)"

definition cell_text :: "string option \<Rightarrow> string" where
  \<comment> \<open>\<open>String(val)\<close> of a cell, which \<open>parseInt\<close> and the template literal apply\<close>
  "cell_text val = (case val of None \<Rightarrow> ''undefined'' | Some s \<Rightarrow> s)"

definition cell_value :: "string option \<Rightarrow> jsval" where
  "cell_value val = (case val of None \<Rightarrow> Undefined | Some s \<Rightarrow> Str s)"

definition year_cell :: "nat \<Rightarrow> string option \<Rightarrow> error + jsval" where
  \<comment> \<open>the branch \<open>header === 'Start_Year'\<close> of row \<open>i\<close>\<close>
  "year_cell i val =
     (case parseInt (cell_text val) of
        None \<Rightarrow> Inl (RowParseError (i + 1) (cell_text val))
      | Some parsedYear \<Rightarrow> Inr parsedYear)"

definition generation_cell :: "string option \<Rightarrow> error + jsval" where
  \<comment> \<open>the branch \<open>header === 'Generation'\<close>: \<open>cleanGeneration(val)\<close> calls \<open>val.match\<close>\<close>
  "generation_cell val =
     (case val of Some s \<Rightarrow> Inr (Str (cleanGeneration s)) | None \<Rightarrow> Inl TypeError)"

definition set_property :: "string \<Rightarrow> jsval \<Rightarrow> obj \<Rightarrow> obj" where
  \<comment> \<open>\<open>record[header] = val\<close>\<close>
  "set_property header val record =
     (if header = ''__proto__'' then record else AList.update header val record)"

fun forEach_header :: "nat \<Rightarrow> string list \<Rightarrow> (string \<times> nat) list \<Rightarrow> obj \<Rightarrow> error + obj" where
  "forEach_header i values [] record = Inr record"
| "forEach_header i values ((header, index) # rest) record =
     (case (if header = ''Start_Year'' then year_cell i (value_at values index)
            else if header = ''Generation'' then generation_cell (value_at values index)
            else Inr (cell_value (value_at values index))) of
        Inl e \<Rightarrow> Inl e
      | Inr val \<Rightarrow> forEach_header i values rest (set_property header val record))"

definition cells :: "string \<Rightarrow> string list" where
  \<comment> \<open>\<open>line.split(',').map(v => v.trim())\<close>, used for the header row and for each data row\<close>
  "cells line = map trim (split_on CHR '','' line)"

definition parse_row :: "nat \<Rightarrow> string list \<Rightarrow> string list \<Rightarrow> error + obj" where
  \<comment> \<open>\<open>headers.forEach((header, index) => ...)\<close> on an empty \<open>record\<close>\<close>
  "parse_row i headers values = forEach_header i values (zip headers [0..<length headers]) []"

fun parse_rows :: "string list \<Rightarrow> string list \<Rightarrow> nat \<Rightarrow> obj list \<Rightarrow> error + obj list" where
  \<comment> \<open>the loop \<open>for (let i = 1; i < lines.length; i++)\<close>, entered at \<open>i\<close> with the lines left\<close>
  "parse_rows headers [] i results = Inr results"
| "parse_rows headers (line # rest) i results =
     (let values = cells line
      in if length values < length expectedHeaders then parse_rows headers rest (i + 1) results
         else (case parse_row i headers values of
                 Inl e \<Rightarrow> Inl e
               | Inr record \<Rightarrow> parse_rows headers rest (i + 1) (results @ [record])))"

definition nonblank_lines :: "string \<Rightarrow> string list" where
  \<comment> \<open>\<open>content.split('\n').filter(line => line.trim() !== '')\<close>\<close>
  "nonblank_lines content = filter (\<lambda>line. trim line \<noteq> []) (split_on CHR ''\<newline>'' content)"

definition parseCSV :: "string \<Rightarrow> error + obj list" where
  "parseCSV content =
     (let lines = nonblank_lines content
      in if length lines < 2 then Inr []
         else (let headers = cells (hd lines);
                   isValidHeader = every (\<lambda>h. array_includes headers h) expectedHeaders
               in if \<not> isValidHeader then Inl FormatError
                  else parse_rows headers (tl lines) 1 []))"

section \<open>Merging candidates\<close>

text \<open>
  \<open>confirmAddition\<close> walks the suggestions and tests each against \<open>database\<close>, the state of
  the component when the handler runs; the accepted ones are collected in \<open>newRecords\<close>:
  \<^verbatim>\<open>suggestions.forEach(s => {
    if (!isDuplicate(database, s)) { newRecords.push(s); } else { addLog(...); }
  });
  const updatedDb = sortDatabase([...database, ...newRecords]);
  setDatabase(updatedDb);\<close>
\<close>

fun collect_new ::
  "VehicleRecord list \<Rightarrow> VehicleRecord list \<Rightarrow> VehicleRecord list \<Rightarrow> VehicleRecord list" where
  "collect_new database [] newRecords = newRecords"
| "collect_new database (s # rest) newRecords =
     (if \<not> isDuplicate database s then collect_new database rest (newRecords @ [s])
      else collect_new database rest newRecords)"

definition confirmAddition ::
  "(string \<Rightarrow> string \<Rightarrow> int) \<Rightarrow> VehicleRecord list \<Rightarrow> VehicleRecord list \<Rightarrow> VehicleRecord list" where
  \<comment> \<open>the value passed to \<open>setDatabase\<close>\<close>
  "confirmAddition localeCompare database suggestions =
     (let newRecords = collect_new database suggestions []
      in sortDatabase localeCompare (database @ newRecords))"

text \<open>
  \<open>handleImportCSV\<close> copies the database into \<open>mergedData\<close> and tests each imported record
  against \<open>mergedData\<close>, which grows as records are accepted:
  \<^verbatim>\<open>const mergedData = [...database];
  let addedCount = 0;
  importedData.forEach(record => {
    if (!isDuplicate(mergedData, record)) { mergedData.push(record); addedCount++; }
  });
  const sorted = sortDatabase(mergedData);
  setDatabase(sorted);\<close>
\<close>

fun merge_imported ::
  "VehicleRecord list \<Rightarrow> VehicleRecord list \<Rightarrow> nat \<Rightarrow> VehicleRecord list \<times> nat" where
  "merge_imported [] mergedData addedCount = (mergedData, addedCount)"
| "merge_imported (record # rest) mergedData addedCount =
     (if \<not> isDuplicate mergedData record
      then merge_imported rest (mergedData @ [record]) (addedCount + 1)
      else merge_imported rest mergedData addedCount)"

definition import_merge ::
  "(string \<Rightarrow> string \<Rightarrow> int) \<Rightarrow> VehicleRecord list \<Rightarrow> VehicleRecord list \<Rightarrow> VehicleRecord list" where
  \<comment> \<open>the value passed to \<open>setDatabase\<close> once the file has been decoded to \<open>importedData\<close>\<close>
  "import_merge localeCompare database importedData =
     sortDatabase localeCompare (fst (merge_imported importedData database 0))"

text \<open>
  \<open>parseCSV\<close> ends each row with \<open>results.push(record as VehicleRecord)\<close>. The cast checks
  nothing; \<open>asVehicleRecord\<close> says when the object has the six fields with their declared
  types. The handlers below are typed over \<open>VehicleRecord\<close>, so an import whose rows lack a
  declared field (a header row of more than six columns and a shorter data row), or
  whose year is not a safe integer, has the outcome \<open>Untyped\<close>: what the merge does with
  such objects is not part of this model.
  A thrown error is caught by the handler, which logs it and does not call \<open>setDatabase\<close>.
\<close>

definition get_prop :: "obj \<Rightarrow> string \<Rightarrow> jsval" where
  \<comment> \<open>\<open>record[key]\<close> for a name other than \<open>__proto__\<close>\<close>
  "get_prop record key = (case map_of record key of None \<Rightarrow> Undefined | Some v \<Rightarrow> v)"

definition as_text :: "jsval \<Rightarrow> string option" where
  "as_text v = (case v of Str s \<Rightarrow> Some s | _ \<Rightarrow> None)"

definition as_number :: "jsval \<Rightarrow> int option" where
  "as_number v = (case v of Num n \<Rightarrow> Some n | _ \<Rightarrow> None)"

definition asVehicleRecord :: "obj \<Rightarrow> VehicleRecord option" where
  "asVehicleRecord record =
     Option.bind (as_text (get_prop record ''Manufacturer'')) (\<lambda>m.
     Option.bind (as_text (get_prop record ''Model'')) (\<lambda>mo.
     Option.bind (as_text (get_prop record ''Generation'')) (\<lambda>g.
     Option.bind (as_text (get_prop record ''Model_Code'')) (\<lambda>mc.
     Option.bind (as_number (get_prop record ''Start_Year'')) (\<lambda>y.
     Option.bind (as_text (get_prop record ''End_Year'')) (\<lambda>e.
       Some \<lparr>Manufacturer = m, Model = mo, Generation = g, Model_Code = mc,
             Start_Year = y, End_Year = e\<rparr>))))))"

definition toObj :: "VehicleRecord \<Rightarrow> obj" where
  \<comment> \<open>a \<open>VehicleRecord\<close> as the object \<open>parseCSV\<close> would build for it\<close>
  "toObj r = map (\<lambda>header. (header, get_field r header)) expectedHeaders"

datatype import_result = Aborted error | Imported "VehicleRecord list" | Untyped

definition handleImportCSV ::
  "(string \<Rightarrow> string \<Rightarrow> int) \<Rightarrow> VehicleRecord list \<Rightarrow> string \<Rightarrow> import_result" where
  "handleImportCSV localeCompare database content =
     (case parseCSV content of
        Inl err \<Rightarrow> Aborted err
      | Inr importedData \<Rightarrow>
          (case those (map asVehicleRecord importedData) of
             None \<Rightarrow> Untyped
           | Some records \<Rightarrow> Imported (import_merge localeCompare database records)))"

section \<open>Deleting the selected rows\<close>

text \<open>
  \<^verbatim>\<open>const count = selectedRowKeys.size;
  if (count === 0) return;
  if (window.confirm(...)) {
    const keysToDelete = new Set(selectedRowKeys);
    setDatabase(prevDb => prevDb.filter(record => !keysToDelete.has(getRecordKey(record))));
    setSelectedRowKeys(new Set());
  }\<close>
  The answer of \<open>window.confirm\<close> is the argument \<open>confirmed\<close>; the result is the database after
  the handler.
\<close>

definition handleDeleteSelected ::
  "(jsval \<Rightarrow> string) \<Rightarrow> bool \<Rightarrow> string fset \<Rightarrow> VehicleRecord list \<Rightarrow> VehicleRecord list" where
  "handleDeleteSelected hostText confirmed selectedRowKeys prevDb =
     (let count = fcard selectedRowKeys
      in if count = 0 then prevDb
         else if confirmed
              then (let keysToDelete = selectedRowKeys
                    in filter (\<lambda>record. \<not> (getRecordKey hostText (Some record) |\<in>| keysToDelete))
                         prevDb)
              else prevDb)"

section \<open>Pagination\<close>

text \<open>
  \<^verbatim>\<open>const totalPages = Math.max(1, Math.ceil(filteredData.length / RECORDS_PER_PAGE));
  useEffect(() => {
    if (currentPage > totalPages && totalPages > 0) { setCurrentPage(totalPages); }
  }, [totalPages, currentPage]);\<close>
\<close>

definition RECORDS_PER_PAGE :: nat where
  "RECORDS_PER_PAGE = 50"

definition totalPages :: "'a list \<Rightarrow> nat" where
  "totalPages filteredData =
     max 1 (nat \<lceil>real (length filteredData) / real RECORDS_PER_PAGE\<rceil>)"

definition page_bounds_check :: "nat \<Rightarrow> nat \<Rightarrow> nat" where
  \<comment> \<open>the current page after the effect has run\<close>
  "page_bounds_check currentPage pages =
     (if currentPage > pages \<and> pages > 0 then pages else currentPage)"

section \<open>Persistence\<close>

text \<open>
  The component keeps the dataset in the state \<open>database\<close> and a snapshot of it in local
  storage under \<open>STORAGE_KEY\<close>; \<open>saved\<close> is that item (\<open>None\<close> when there is none). An item
  is the text \<open>JSON.stringify\<close> made of a dataset, \<open>Snapshot\<close> of that dataset, or a text
  that \<open>JSON.parse\<close> rejects. The snapshot is written by an effect that runs after every
  render in which \<open>database\<close> is a new array:
  \<^verbatim>\<open>useEffect(() => {
    if (database.length > 0) { localStorage.setItem(STORAGE_KEY, JSON.stringify(database)); }
  }, [database]);\<close>
  \<open>setDatabase\<close> below is the state update followed by that effect.
\<close>

datatype item = Snapshot "VehicleRecord list" | Unparsable

record store =
  database :: "VehicleRecord list"
  saved :: "item option"

definition auto_save :: "store \<Rightarrow> store" where
  "auto_save st = (if length (database st) > 0 then st\<lparr>saved := Some (Snapshot (database st))\<rparr> else st)"

definition setDatabase :: "VehicleRecord list \<Rightarrow> store \<Rightarrow> store" where
  "setDatabase d st = auto_save (st\<lparr>database := d\<rparr>)"

definition INTERNAL_DB_MAIN :: "VehicleRecord list" where
  "INTERNAL_DB_MAIN =
     [\<lparr>Manufacturer = ''Toyota'', Model = ''Corolla'', Generation = ''12'', Model_Code = ''E210'',
       Start_Year = 2018, End_Year = ''Present''\<rparr>,
      \<lparr>Manufacturer = ''Toyota'', Model = ''RAV4'', Generation = ''5'', Model_Code = ''XA50'',
       Start_Year = 2018, End_Year = ''Present''\<rparr>,
      \<lparr>Manufacturer = ''Hyundai'', Model = ''Tucson'', Generation = ''4'', Model_Code = ''NX4'',
       Start_Year = 2020, End_Year = ''Present''\<rparr>,
      \<lparr>Manufacturer = ''Hyundai'', Model = ''Ioniq 5'', Generation = ''1'', Model_Code = ''NE'',
       Start_Year = 2021, End_Year = ''Present''\<rparr>,
      \<lparr>Manufacturer = ''Skoda'', Model = ''Octavia'', Generation = ''4'', Model_Code = ''NX'',
       Start_Year = 2020, End_Year = ''Present''\<rparr>,
      \<lparr>Manufacturer = ''Suzuki'', Model = ''Swift'', Generation = ''6'', Model_Code = ''A2L'',
       Start_Year = 2017, End_Year = ''2023''\<rparr>]"

definition INTERNAL_DB_PREMIUM :: "VehicleRecord list" where
  "INTERNAL_DB_PREMIUM =
     [\<lparr>Manufacturer = ''BMW'', Model = ''3 Series'', Generation = ''7'', Model_Code = ''G20'',
       Start_Year = 2018, End_Year = ''Present''\<rparr>,
      \<lparr>Manufacturer = ''BMW'', Model = ''5 Series'', Generation = ''8'', Model_Code = ''G60'',
       Start_Year = 2023, End_Year = ''Present''\<rparr>,
      \<lparr>Manufacturer = ''Mercedes-Benz'', Model = ''C-Class'', Generation = ''5'', Model_Code = ''W206'',
       Start_Year = 2021, End_Year = ''Present''\<rparr>,
      \<lparr>Manufacturer = ''Mercedes-Benz'', Model = ''S-Class'', Generation = ''7'', Model_Code = ''W223'',
       Start_Year = 2020, End_Year = ''Present''\<rparr>]"



definition import_step :: "(string \<Rightarrow> string \<Rightarrow> int) \<Rightarrow> string \<Rightarrow> store \<Rightarrow> store option" where
  "import_step localeCompare content st =
     (case handleImportCSV localeCompare (database st) content of
        Aborted err \<Rightarrow> Some st
      | Imported sortedData \<Rightarrow> Some (setDatabase sortedData st)
      | Untyped \<Rightarrow> None)"


section \<open>Notions of the specification\<close>

text \<open>
  The specification speaks of the first maximal run of decimal digits of a text: a
  non-empty block of digits with no digit before it in the text and no digit right
  after it.
\<close>

definition first_digit_run :: "string \<Rightarrow> string \<Rightarrow> bool" where
  "first_digit_run val run \<longleftrightarrow>
     (\<exists>pre post. val = pre @ run @ post \<and> (\<forall>c\<in>set pre. \<not> isDigit c) \<and>
        run \<noteq> [] \<and> (\<forall>c\<in>set run. isDigit c) \<and> (post = [] \<or> \<not> isDigit (hd post)))"

text \<open>
  The record the specification uses in its examples: the BMW 3 Series of generation 7,
  model code G20, produced from 2018, with \<open>End_Year\<close> "Present".
\<close>

definition bmw_3_series :: VehicleRecord where
  "bmw_3_series =
     \<lparr>Manufacturer = ''BMW'', Model = ''3 Series'', Generation = ''7'', Model_Code = ''G20'',
      Start_Year = 2018, End_Year = ''Present''\<rparr>"

text \<open>
  Two texts match case-insensitively when their lower-case forms are equal, which is how
  the program compares them.
\<close>

definition ci_match :: "string \<Rightarrow> string \<Rightarrow> bool" where
  "ci_match a b \<longleftrightarrow> toLowerCase a = toLowerCase b"

text \<open>
  A merge that accepts a candidate when it is a duplicate neither of the dataset nor of a
  candidate accepted before it in the same batch; \<open>accepted\<close> holds the candidates
  accepted so far.
\<close>

fun accept_progressively ::
  "VehicleRecord list \<Rightarrow> VehicleRecord list \<Rightarrow> VehicleRecord list \<Rightarrow> VehicleRecord list" where
  "accept_progressively D accepted [] = accepted"
| "accept_progressively D accepted (c # cs) =
     (if isDuplicate D c \<or> isDuplicate accepted c then accept_progressively D accepted cs
      else accept_progressively D (accepted @ [c]) cs)"



text \<open>
  A data row is accepted when it has at least as many cells as there are expected
  headers; the others are skipped. A row has a bad year at a column when that column is
  headed \<open>Start_Year\<close> and \<open>parseInt\<close> cannot read the row's cell there (an absent cell reads
  as the text \<open>undefined\<close>).
\<close>

definition accepted_row :: "string \<Rightarrow> bool" where
  "accepted_row line \<longleftrightarrow> length expectedHeaders \<le> length (cells line)"

definition bad_year_at :: "string list \<Rightarrow> string \<Rightarrow> nat \<Rightarrow> bool" where
  "bad_year_at headers line index \<longleftrightarrow>
     index < length headers \<and> headers ! index = ''Start_Year'' \<and>
     parseInt (cell_text (value_at (cells line) index)) = None"

definition bad_year :: "string list \<Rightarrow> string \<Rightarrow> bool" where
  "bad_year headers line \<longleftrightarrow> (\<exists>index < length headers. bad_year_at headers line index)"

text \<open>
  A text field survives the codec when it holds no comma and no line break and has no
  white space at either end; a record does when its five text fields do, its
  generation is already normalised and its start year is a safe integer.
\<close>

definition plain_text :: "string \<Rightarrow> bool" where
  "plain_text f \<longleftrightarrow> CHR '','' \<notin> set f \<and> CHR ''\<newline>'' \<notin> set f \<and> trim f = f"

definition codec_safe :: "VehicleRecord \<Rightarrow> bool" where
  "codec_safe r \<longleftrightarrow>
     plain_text (Manufacturer r) \<and> plain_text (Model r) \<and> plain_text (Generation r) \<and>
     plain_text (Model_Code r) \<and> plain_text (End_Year r) \<and>
     cleanGeneration (Generation r) = Generation r \<and> safe_integer (Start_Year r)"

text \<open>
  The six cells \<open>convertToCSV\<close> writes for a record, in the order of the header row.
\<close>

definition row_cells :: "(jsval \<Rightarrow> string) \<Rightarrow> VehicleRecord \<Rightarrow> string list" where
  "row_cells hostText r = [Manufacturer r, Model r, Generation r, Model_Code r,
                           numberToString hostText (Start_Year r), End_Year r]"

text \<open>
  What a decoded row holds under a header for the cell in that column: the number
  \<open>parseInt\<close> reads under \<open>Start_Year\<close>, the normalised text under \<open>Generation\<close>, the cell
  itself under every other header.
\<close>

definition decoded_cell :: "string \<Rightarrow> string option \<Rightarrow> jsval \<Rightarrow> bool" where
  "decoded_cell header cell v \<longleftrightarrow>
     (if header = ''Start_Year'' then parseInt (cell_text cell) = Some v
      else if header = ''Generation'' then \<exists>s. cell = Some s \<and> v = Str (cleanGeneration s)
      else v = cell_value cell)"

section \<open>Properties\<close>

subsection \<open>Normalising a generation\<close>

lemma match_digits_None: "match_digits val = None \<longleftrightarrow> (\<forall>c\<in>set val. \<not> isDigit c)"
  by (induction val) auto

lemma takeWhile_run:
  "\<forall>c\<in>set run. isDigit c \<Longrightarrow> post = [] \<or> \<not> isDigit (hd post) \<Longrightarrow>
   takeWhile isDigit (run @ post) = run"
  by (cases post) (auto simp: takeWhile_append2)

lemma match_digits_run:
  assumes "\<forall>c\<in>set pre. \<not> isDigit c" "run \<noteq> []" "\<forall>c\<in>set run. isDigit c"
    "post = [] \<or> \<not> isDigit (hd post)"
  shows "match_digits (pre @ run @ post) = Some run"
  using assms(1)
proof (induction pre)
  case Nil
  obtain c cs where run: "run = c # cs" using assms(2) by (cases run) auto
  have "takeWhile isDigit (run @ post) = run" using assms(3,4) by (rule takeWhile_run)
  moreover have "isDigit c" using assms(3) run by simp
  ultimately show ?case using run by simp
next
  case (Cons a pre)
  then show ?case by simp
qed

lemma match_digits_Some_run: "match_digits val = Some m \<Longrightarrow> first_digit_run val m"
proof (induction val)
  case Nil
  then show ?case by simp
next
  case (Cons a val)
  show ?case
  proof (cases "isDigit a")
    case True
    with Cons.prems have m: "m = takeWhile isDigit (a # val)" by simp
    have "a # val = [] @ m @ dropWhile isDigit (a # val)" by (simp add: m)
    moreover have "m \<noteq> []" using True m by simp
    moreover have "\<forall>c\<in>set m. isDigit c" unfolding m by (metis set_takeWhileD)
    moreover have "dropWhile isDigit (a # val) = [] \<or> \<not> isDigit (hd (dropWhile isDigit (a # val)))"
      by (metis hd_dropWhile)
    ultimately have "a # val = [] @ m @ dropWhile isDigit (a # val) \<and>
        (\<forall>c\<in>set []. \<not> isDigit c) \<and> m \<noteq> [] \<and> (\<forall>c\<in>set m. isDigit c) \<and>
        (dropWhile isDigit (a # val) = [] \<or> \<not> isDigit (hd (dropWhile isDigit (a # val))))"
      by simp
    then show ?thesis unfolding first_digit_run_def by (intro exI)
  next
    case False
    with Cons.prems have "match_digits val = Some m" by simp
    from Cons.IH[OF this] obtain pre post where
      h: "val = pre @ m @ post" "\<forall>c\<in>set pre. \<not> isDigit c" "m \<noteq> []" "\<forall>c\<in>set m. isDigit c"
         "post = [] \<or> \<not> isDigit (hd post)"
      unfolding first_digit_run_def by blast
    have "a # val = (a # pre) @ m @ post" using h(1) by simp
    moreover have "\<forall>c\<in>set (a # pre). \<not> isDigit c" using False h(2) by simp
    ultimately show ?thesis unfolding first_digit_run_def using h(3,4,5) by blast
  qed
qed

text \<open>
  Claim C9. \<open>cleanGeneration\<close> (the specification's \<open>normalizeGeneration\<close>) returns the
  first maximal run of decimal digits of its input when the input has a digit, and the
  input itself when it has none; \<open>Mk5\<close> gives \<open>5\<close> and \<open>Generation V\<close> is returned as it is.
\<close>

theorem cleanGeneration_first_digit_run:
  "(first_digit_run val run \<longrightarrow> cleanGeneration val = run) \<and>
   ((\<exists>c\<in>set val. isDigit c) \<longrightarrow> first_digit_run val (cleanGeneration val)) \<and>
   ((\<forall>c\<in>set val. \<not> isDigit c) \<longrightarrow> cleanGeneration val = val) \<and>
   cleanGeneration ''Mk5'' = ''5'' \<and>
   cleanGeneration ''Generation V'' = ''Generation V''"
proof (intro conjI impI)
  assume "first_digit_run val run"
  then obtain pre post where h: "val = pre @ run @ post" "\<forall>c\<in>set pre. \<not> isDigit c"
      "run \<noteq> []" "\<forall>c\<in>set run. isDigit c" "post = [] \<or> \<not> isDigit (hd post)"
    unfolding first_digit_run_def by blast
  have "match_digits val = Some run"
    unfolding h(1) using h(2-5) by (rule match_digits_run)
  then show "cleanGeneration val = run"
    by (simp add: cleanGeneration_def)
next
  assume "\<exists>c\<in>set val. isDigit c"
  then obtain m where m: "match_digits val = Some m"
    using match_digits_None[of val] by (cases "match_digits val") auto
  then show "first_digit_run val (cleanGeneration val)"
    using match_digits_Some_run[OF m] by (simp add: cleanGeneration_def)
next
  assume "\<forall>c\<in>set val. \<not> isDigit c"
  then show "cleanGeneration val = val"
    using match_digits_None[of val] by (simp add: cleanGeneration_def)
next
  show "cleanGeneration ''Mk5'' = ''5''" by (simp add: cleanGeneration_def isDigit_def)
next
  show "cleanGeneration ''Generation V'' = ''Generation V''"
    by (simp add: cleanGeneration_def isDigit_def)
qed

theorem cleanGeneration_first_digit_run_witness:
  "first_digit_run ''E210 v2'' ''210'' \<and> cleanGeneration ''E210 v2'' = ''210'' \<and>
   cleanGeneration ''Mk'' = ''Mk''"
proof -
  have run: "first_digit_run ''E210 v2'' ''210''"
    unfolding first_digit_run_def
    by (rule exI[of _ "''E''"], rule exI[of _ "'' v2''"]) (simp add: isDigit_def)
  have nodigit: "\<forall>c\<in>set ''Mk''. \<not> isDigit c" by (simp add: isDigit_def)
  show ?thesis
    using run nodigit cleanGeneration_first_digit_run[of "''E210 v2''" "''210''"]
      cleanGeneration_first_digit_run[of "''Mk''" "''''"]
    by blast
qed

subsection \<open>Duplicates and identity keys\<close>

lemma some_iff: "some p xs \<longleftrightarrow> (\<exists>x\<in>set xs. p x)"
  by (induction xs) auto

text \<open>
  Claim C4. \<open>isDuplicate existing candidate\<close> holds exactly when \<open>existing\<close> has a record
  whose manufacturer, model, generation and model code match the candidate's
  case-insensitively and whose start year equals the candidate's. \<open>End_Year\<close> plays no
  part, neither the candidate's nor that of the existing records, so the BMW 3 Series
  record with \<open>End_Year\<close> "Present" and the same record with \<open>End_Year\<close> "2023" are
  duplicates of each other.
\<close>

theorem isDuplicate_iff_ci_match:
  "(isDuplicate existing candidate \<longleftrightarrow>
      (\<exists>item\<in>set existing.
         ci_match (Manufacturer item) (Manufacturer candidate) \<and>
         ci_match (Model item) (Model candidate) \<and>
         ci_match (Generation item) (Generation candidate) \<and>
         ci_match (Model_Code item) (Model_Code candidate) \<and>
         Start_Year item = Start_Year candidate)) \<and>
   isDuplicate existing (candidate\<lparr>End_Year := e\<rparr>) = isDuplicate existing candidate \<and>
   isDuplicate (map (\<lambda>item. item\<lparr>End_Year := e\<rparr>) existing) candidate = isDuplicate existing candidate \<and>
   isDuplicate [bmw_3_series] (bmw_3_series\<lparr>End_Year := ''2023''\<rparr>) \<and>
   isDuplicate [bmw_3_series\<lparr>End_Year := ''2023''\<rparr>] bmw_3_series"
proof (intro conjI)
  show "isDuplicate existing candidate \<longleftrightarrow>
      (\<exists>item\<in>set existing.
         ci_match (Manufacturer item) (Manufacturer candidate) \<and>
         ci_match (Model item) (Model candidate) \<and>
         ci_match (Generation item) (Generation candidate) \<and>
         ci_match (Model_Code item) (Model_Code candidate) \<and>
         Start_Year item = Start_Year candidate)"
    unfolding isDuplicate_def some_iff ci_match_def ..
  show "isDuplicate existing (candidate\<lparr>End_Year := e\<rparr>) = isDuplicate existing candidate"
    by (simp add: isDuplicate_def)
  show "isDuplicate (map (\<lambda>item. item\<lparr>End_Year := e\<rparr>) existing) candidate
      = isDuplicate existing candidate"
    by (simp add: isDuplicate_def some_iff)
  show "isDuplicate [bmw_3_series] (bmw_3_series\<lparr>End_Year := ''2023''\<rparr>)"
    by (simp add: isDuplicate_def)
  show "isDuplicate [bmw_3_series\<lparr>End_Year := ''2023''\<rparr>] bmw_3_series"
    by (simp add: isDuplicate_def)
qed

theorem isDuplicate_iff_ci_match_witness:
  "isDuplicate [bmw_3_series\<lparr>Manufacturer := ''bmw'', Model_Code := ''g20'', End_Year := ''2020''\<rparr>]
     bmw_3_series \<and>
   \<not> isDuplicate [bmw_3_series\<lparr>Start_Year := 2019\<rparr>] bmw_3_series"
proof -
  let ?same = "\<lambda>item candidate.
         ci_match (Manufacturer item) (Manufacturer candidate) \<and>
         ci_match (Model item) (Model candidate) \<and>
         ci_match (Generation item) (Generation candidate) \<and>
         ci_match (Model_Code item) (Model_Code candidate) \<and>
         Start_Year item = Start_Year candidate"
  have yes: "\<exists>item\<in>set [bmw_3_series\<lparr>Manufacturer := ''bmw'', Model_Code := ''g20'', End_Year := ''2020''\<rparr>].
      ?same item bmw_3_series"
    by code_simp
  have no: "\<not> (\<exists>item\<in>set [bmw_3_series\<lparr>Start_Year := 2019\<rparr>]. ?same item bmw_3_series)"
    by code_simp
  show ?thesis
    using yes no
      isDuplicate_iff_ci_match[of "[bmw_3_series\<lparr>Manufacturer := ''bmw'', Model_Code := ''g20'', End_Year := ''2020''\<rparr>]" bmw_3_series, THEN conjunct1]
      isDuplicate_iff_ci_match[of "[bmw_3_series\<lparr>Start_Year := 2019\<rparr>]" bmw_3_series, THEN conjunct1]
    by blast
qed

lemma join_snoc: "xs \<noteq> [] \<Longrightarrow> join sep (xs @ [x]) = join sep xs @ sep @ x"
  by (induction sep xs rule: join.induct) auto

lemma getRecordKey_Some:
  "getRecordKey hostText (Some v) =
     join ''##'' (map (\<lambda>s. toLowerCase (trim s))
       [Manufacturer v, Model v, Generation v, Model_Code v,
        (if Start_Year v = 0 then [] else numberToString hostText (Start_Year v)), End_Year v])"
  by (simp add: getRecordKey_def or_empty_def toString_def)

lemma getRecordKey_None: "getRecordKey hostText None = []"
  by (simp add: getRecordKey_def)

lemma getRecordKey_End_Year:
  "getRecordKey hostText (Some (v\<lparr>End_Year := e1\<rparr>)) = getRecordKey hostText (Some (v\<lparr>End_Year := e2\<rparr>))
     \<longleftrightarrow> toLowerCase (trim e1) = toLowerCase (trim e2)"
  by (simp add: getRecordKey_Some)

lemma numberToString_0: "numberToString hostText 0 = ''0''"
  by (simp add: numberToString_def safe_integer_def decimal_text_def natToString.simps digitChar_def)

text \<open>
  Claim C5. The claim says that the key joins, in fixed order and with a fixed delimiter,
  the trimmed lower-case values of all six fields. The code does so except for a start
  year of 0: \<open>p || ''\<close>, which is there for absent values, also takes the number 0 for
  absent, so the key of the BMW record with start year 0 has the empty text where the
  value \<open>0\<close> would stand. The second equation is the key the claim describes.
\<close>

theorem getRecordKey_year_zero:
  "getRecordKey hostText (Some (bmw_3_series\<lparr>Start_Year := 0\<rparr>))
     = ''bmw##3 series##7##g20####present'' \<and>
   join ''##'' (map (\<lambda>s. toLowerCase (trim s))
     [''BMW'', ''3 Series'', ''7'', ''G20'', numberToString hostText 0, ''Present''])
     = ''bmw##3 series##7##g20##0##present''"
proof
  have "getRecordKey hostText (Some (bmw_3_series\<lparr>Start_Year := 0\<rparr>))
      = join ''##'' (map (\<lambda>s. toLowerCase (trim s))
          [''BMW'', ''3 Series'', ''7'', ''G20'', [], ''Present''])"
    by (simp add: getRecordKey_Some bmw_3_series_def)
  also have "\<dots> = ''bmw##3 series##7##g20####present''" by code_simp
  finally show "getRecordKey hostText (Some (bmw_3_series\<lparr>Start_Year := 0\<rparr>))
     = ''bmw##3 series##7##g20####present''" .
  have "join ''##'' (map (\<lambda>s. toLowerCase (trim s))
      [''BMW'', ''3 Series'', ''7'', ''G20'', ''0'', ''Present''])
      = ''bmw##3 series##7##g20##0##present''" by code_simp
  then show "join ''##'' (map (\<lambda>s. toLowerCase (trim s))
     [''BMW'', ''3 Series'', ''7'', ''G20'', numberToString hostText 0, ''Present''])
     = ''bmw##3 series##7##g20##0##present''"
    by (simp only: numberToString_0)
qed

subsection \<open>Pagination\<close>

lemma ceiling_div_nat: "nat \<lceil>real n / real RECORDS_PER_PAGE\<rceil> = (n + 49) div 50"
proof -
  define q where "q = (int n + 49) div 50"
  have 1: "50 * q \<le> int n + 49" and 2: "int n \<le> 50 * q"
    unfolding q_def by presburger+
  have "real_of_int (50 * q) \<le> real_of_int (int n + 49)"
    using 1 by (simp only: of_int_le_iff)
  then have r1: "50 * real_of_int q \<le> real n + 49" by simp
  have "real_of_int (int n) \<le> real_of_int (50 * q)"
    using 2 by (simp only: of_int_le_iff)
  then have r2: "real n \<le> 50 * real_of_int q" by simp
  have "\<lceil>real n / 50\<rceil> = q"
  proof (rule ceiling_unique)
    show "real_of_int q - 1 < real n / 50" using r1 by simp
    show "real n / 50 \<le> real_of_int q" using r2 by simp
  qed
  then have "nat \<lceil>real n / 50\<rceil> = nat q" by simp
  also have "nat q = (n + 49) div 50" unfolding q_def by (simp add: nat_div_distrib nat_add_distrib)
  finally show ?thesis unfolding RECORDS_PER_PAGE_def by simp
qed

lemma totalPages_div: "totalPages view = max 1 ((length view + 49) div 50)"
  unfolding totalPages_def ceiling_div_nat ..

lemma totalPages_covers: "length view \<le> totalPages view * RECORDS_PER_PAGE"
proof -
  have "length view \<le> ((length view + 49) div 50) * 50" by presburger
  also have "\<dots> \<le> max 1 ((length view + 49) div 50) * 50" by (rule mult_le_mono1) simp
  finally show ?thesis unfolding totalPages_div RECORDS_PER_PAGE_def .
qed

lemma totalPages_least:
  assumes "1 \<le> p" "length view \<le> p * RECORDS_PER_PAGE"
  shows "totalPages view \<le> p"
proof -
  have "(length view + 49) div 50 \<le> (p * 50 + 49) div 50"
    using assms(2) unfolding RECORDS_PER_PAGE_def by (intro div_le_mono) simp
  also have "(p * 50 + 49) div 50 = p" by simp
  finally show ?thesis using assms(1) unfolding totalPages_div by simp
qed

text \<open>
  Claim C8. With the page size \<open>RECORDS_PER_PAGE\<close> the number of pages of a filtered view
  is the ceiling of its length divided by the page size, and at least 1 (1 for the empty
  view): it is the least number of pages, from 1 on, that hold the view. When the
  current page is beyond the number of pages the bounds check sets it to the last page,
  and it leaves a valid page alone. A view of 120 records has 3 pages, and page 5 is
  set back to page 3.
\<close>

theorem totalPages_ceiling_and_clamp:
  "totalPages view = max 1 (nat \<lceil>real (length view) / real RECORDS_PER_PAGE\<rceil>) \<and>
   1 \<le> totalPages view \<and>
   length view \<le> totalPages view * RECORDS_PER_PAGE \<and>
   (\<forall>p. 1 \<le> p \<and> length view \<le> p * RECORDS_PER_PAGE \<longrightarrow> totalPages view \<le> p) \<and>
   totalPages ([] :: 'a list) = 1 \<and>
   (currentPage > totalPages view \<longrightarrow>
      page_bounds_check currentPage (totalPages view) = totalPages view) \<and>
   (currentPage \<le> totalPages view \<longrightarrow>
      page_bounds_check currentPage (totalPages view) = currentPage) \<and>
   (length view = 120 \<longrightarrow>
      totalPages view = 3 \<and> page_bounds_check 5 (totalPages view) = 3)"
proof (intro conjI allI impI)
  show "totalPages view = max 1 (nat \<lceil>real (length view) / real RECORDS_PER_PAGE\<rceil>)"
    by (simp add: totalPages_def)
  show "1 \<le> totalPages view" by (simp add: totalPages_div)
  show "length view \<le> totalPages view * RECORDS_PER_PAGE"
    by (rule totalPages_covers)
  show "totalPages view \<le> p" if "1 \<le> p \<and> length view \<le> p * RECORDS_PER_PAGE" for p
    using that totalPages_least by blast
  show "totalPages ([] :: 'a list) = 1" by (simp add: totalPages_div)
  show "page_bounds_check currentPage (totalPages view) = totalPages view"
    if "currentPage > totalPages view"
    using that by (simp add: page_bounds_check_def totalPages_div)
  show "page_bounds_check currentPage (totalPages view) = currentPage"
    if "currentPage \<le> totalPages view"
    using that by (simp add: page_bounds_check_def)
  show "totalPages view = 3" if "length view = 120"
    using that by (simp add: totalPages_div)
  show "page_bounds_check 5 (totalPages view) = 3" if "length view = 120"
    using that by (simp add: totalPages_div page_bounds_check_def)
qed

theorem totalPages_ceiling_and_clamp_witness:
  "length (replicate 120 bmw_3_series) = 120 \<and>
   totalPages (replicate 120 bmw_3_series) = 3 \<and>
   page_bounds_check 5 (totalPages (replicate 120 bmw_3_series)) = 3 \<and>
   page_bounds_check 2 (totalPages (replicate 120 bmw_3_series)) = 2"
proof -
  let ?v = "replicate 120 bmw_3_series"
  have len: "length ?v = 120" by simp
  note t = totalPages_ceiling_and_clamp[of ?v 2]
  have "length ?v = 120 \<longrightarrow> totalPages ?v = 3 \<and> page_bounds_check 5 (totalPages ?v) = 3"
    using t by (elim conjE) assumption
  with len have both: "totalPages ?v = 3 \<and> page_bounds_check 5 (totalPages ?v) = 3" by (rule rev_mp)
  then have three: "totalPages ?v = 3" and five: "page_bounds_check 5 (totalPages ?v) = 3"
    by (rule conjunct1, rule conjunct2)
  have "2 \<le> totalPages ?v \<longrightarrow> page_bounds_check 2 (totalPages ?v) = 2"
    using t by (elim conjE) assumption
  moreover have "2 \<le> totalPages ?v" using three by simp
  ultimately have two: "page_bounds_check 2 (totalPages ?v) = 2" by (rule mp)
  from len three five two show ?thesis by (intro conjI)
qed

subsection \<open>Deleting the selected rows\<close>

text \<open>
  Claim C10. Once the user has confirmed, the bulk delete leaves exactly the records
  whose key is not among the selected keys \<open>K\<close>, each as it was and in the order they
  had: the result is that subsequence of the dataset. So a record of the dataset whose
  key equals the key of a selected record is removed with it. When the user declines,
  nothing is deleted.
\<close>

theorem handleDeleteSelected_filter:
  "handleDeleteSelected hostText True K db = filter (\<lambda>r. getRecordKey hostText (Some r) |\<notin>| K) db \<and>
   subseq (handleDeleteSelected hostText True K db) db \<and>
   (\<forall>r\<in>set db. r \<in> set (handleDeleteSelected hostText True K db) \<longleftrightarrow> getRecordKey hostText (Some r) |\<notin>| K) \<and>
   (\<forall>r\<in>set db. \<forall>r'\<in>set db.
      getRecordKey hostText (Some r') |\<in>| K \<and> getRecordKey hostText (Some r) = getRecordKey hostText (Some r')
        \<longrightarrow> r \<notin> set (handleDeleteSelected hostText True K db)) \<and>
   handleDeleteSelected hostText False K db = db"
proof -
  have eq: "handleDeleteSelected hostText True K db = filter (\<lambda>r. getRecordKey hostText (Some r) |\<notin>| K) db"
  proof (cases "fcard K = 0")
    case True
    then have "K = {||}" by (simp add: fcard_0_eq)
    then show ?thesis by (simp add: handleDeleteSelected_def)
  next
    case False
    then show ?thesis by (simp add: handleDeleteSelected_def)
  qed
  have declined: "handleDeleteSelected hostText False K db = db"
    by (simp add: handleDeleteSelected_def)
  show ?thesis unfolding eq declined by auto
qed


theorem handleDeleteSelected_filter_witness:
  "handleDeleteSelected (\<lambda>v. []) True {|getRecordKey (\<lambda>v. []) (Some bmw_3_series)|}
     [bmw_3_series, bmw_3_series\<lparr>End_Year := ''2023''\<rparr>, bmw_3_series]
   = [bmw_3_series\<lparr>End_Year := ''2023''\<rparr>]"
proof -
  have ne: "getRecordKey (\<lambda>v. []) (Some (bmw_3_series\<lparr>End_Year := ''2023''\<rparr>)) \<noteq> getRecordKey (\<lambda>v. []) (Some bmw_3_series)"
    by code_simp
  show ?thesis
    using ne handleDeleteSelected_filter[of "\<lambda>v. []" "{|getRecordKey (\<lambda>v. []) (Some bmw_3_series)|}"
        "[bmw_3_series, bmw_3_series\<lparr>End_Year := ''2023''\<rparr>, bmw_3_series]", THEN conjunct1]
    by simp
qed

subsection \<open>Merging candidates\<close>

lemma mset_insert_by: "mset (insert_by cmp x ys) = add_mset x (mset ys)"
  by (induction ys) auto

lemma mset_array_sort: "mset (array_sort cmp xs) = mset xs"
  unfolding array_sort_def by (induction xs) (auto simp: mset_insert_by)

lemma mset_sortDatabase: "mset (sortDatabase lc xs) = mset xs"
  by (simp add: sortDatabase_def mset_array_sort)

lemma length_sortDatabase: "length (sortDatabase lc xs) = length xs"
  using mset_sortDatabase[of lc xs] by (metis size_mset)

lemma collect_new_filter:
  "collect_new D C acc = acc @ filter (\<lambda>c. \<not> isDuplicate D c) C"
  by (induction C arbitrary: acc) auto

lemma isDuplicate_append:
  "isDuplicate (xs @ ys) c \<longleftrightarrow> isDuplicate xs c \<or> isDuplicate ys c"
  by (auto simp: isDuplicate_def some_iff)

lemma length_accept_progressively:
  "length acc \<le> length (accept_progressively D acc C)"
proof (induction C arbitrary: acc)
  case Nil
  then show ?case by simp
next
  case (Cons c C)
  have "length acc \<le> length (acc @ [c])" by simp
  also have "\<dots> \<le> length (accept_progressively D (acc @ [c]) C)" by (rule Cons.IH)
  finally show ?case using Cons.IH[of acc] by simp
qed

lemma merge_imported_progressive:
  "merge_imported C (D @ acc) n =
     (D @ accept_progressively D acc C, n + (length (accept_progressively D acc C) - length acc))"
proof (induction C arbitrary: acc n)
  case Nil
  then show ?case by simp
next
  case (Cons c C)
  note len = length_accept_progressively
  show ?case
  proof (cases "isDuplicate D c \<or> isDuplicate acc c")
    case True
    then show ?thesis using Cons.IH[of acc n] by (simp add: isDuplicate_append)
  next
    case False
    have "Suc (length acc) \<le> length (accept_progressively D (acc @ [c]) C)"
      using len[of "acc @ [c]" D C] by simp
    then show ?thesis
      using False Cons.IH[of "acc @ [c]" "n + 1"] by (simp add: isDuplicate_append)
  qed
qed

text \<open>
  Claim C1, as amended. The suggestion merge (\<open>confirmAddition\<close>) tests each candidate, in
  input order, against the dataset \<open>D\<close> as it stood before the batch; the accepted
  candidates are appended to \<open>D\<close> and the result is sorted again, so the new dataset has
  the records of \<open>D\<close> and the candidates that are no duplicates of \<open>D\<close>, and its size is
  \<open>|D|\<close> plus their number. The import merge (\<open>handleImportCSV\<close>) tests each candidate
  against \<open>D\<close> and the candidates accepted before it in the same batch; its result is
  \<open>D\<close> with those accepted candidates appended, sorted again, and its size is \<open>|D|\<close> plus
  the number accepted, which is what \<open>addedCount\<close> holds.
\<close>

theorem merge_sizes:
  "confirmAddition lc D C = sortDatabase lc (D @ filter (\<lambda>c. \<not> isDuplicate D c) C) \<and>
   mset (confirmAddition lc D C) = mset D + mset (filter (\<lambda>c. \<not> isDuplicate D c) C) \<and>
   length (confirmAddition lc D C) = length D + length (filter (\<lambda>c. \<not> isDuplicate D c) C) \<and>
   import_merge lc D C = sortDatabase lc (D @ accept_progressively D [] C) \<and>
   mset (import_merge lc D C) = mset D + mset (accept_progressively D [] C) \<and>
   length (import_merge lc D C) = length D + length (accept_progressively D [] C) \<and>
   snd (merge_imported C D 0) = length (accept_progressively D [] C)"
proof -
  have m: "merge_imported C D 0 = (D @ accept_progressively D [] C, length (accept_progressively D [] C))"
    using merge_imported_progressive[of C D "[]" 0] by simp
  show ?thesis
    by (simp add: confirmAddition_def collect_new_filter import_merge_def m
        mset_sortDatabase length_sortDatabase)
qed

theorem merge_sizes_witness:
  "length (confirmAddition (\<lambda>a b. 0) [bmw_3_series]
            [bmw_3_series\<lparr>End_Year := ''2023''\<rparr>, bmw_3_series\<lparr>Start_Year := 2019\<rparr>,
             bmw_3_series\<lparr>Start_Year := 2019\<rparr>]) = 3 \<and>
   length (import_merge (\<lambda>a b. 0) [bmw_3_series]
            [bmw_3_series\<lparr>End_Year := ''2023''\<rparr>, bmw_3_series\<lparr>Start_Year := 2019\<rparr>,
             bmw_3_series\<lparr>Start_Year := 2019\<rparr>]) = 2"
proof -
  let ?D = "[bmw_3_series]"
  let ?C = "[bmw_3_series\<lparr>End_Year := ''2023''\<rparr>, bmw_3_series\<lparr>Start_Year := 2019\<rparr>,
             bmw_3_series\<lparr>Start_Year := 2019\<rparr>]"
  have a: "length (filter (\<lambda>c. \<not> isDuplicate ?D c) ?C) = 2" by code_simp
  have b: "length (accept_progressively ?D [] ?C) = 1" by code_simp
  note t = merge_sizes[of "\<lambda>a b. 0" ?D ?C]
  have c1: "length (confirmAddition (\<lambda>a b. 0) ?D ?C)
      = length ?D + length (filter (\<lambda>c. \<not> isDuplicate ?D c) ?C)"
    using t by (elim conjE) assumption
  have c2: "length (import_merge (\<lambda>a b. 0) ?D ?C)
      = length ?D + length (accept_progressively ?D [] ?C)"
    using t by (elim conjE) assumption
  show ?thesis unfolding c1 c2 a b by simp
qed

text \<open>
  The claim as stated fails for the import merge: a file with the same row twice, imported
  into the empty dataset, gives a dataset of one record, while no candidate is a
  duplicate of the empty dataset, so the claim's size is 2.
\<close>

theorem import_merge_cross_check_counterexample:
  "handleImportCSV (\<lambda>a b. 0) []
     ''Manufacturer,Model,Generation,Model_Code,Start_Year,End_Year\<newline>BMW,3 Series,7,G20,2018,Present\<newline>BMW,3 Series,7,G20,2018,Present''
     = Imported [bmw_3_series] \<and>
   length (import_merge (\<lambda>a b. 0) [] [bmw_3_series, bmw_3_series]) = 1 \<and>
   length ([] :: VehicleRecord list)
     + length (filter (\<lambda>c. \<not> isDuplicate [] c) [bmw_3_series, bmw_3_series]) = 2"
  by code_simp

subsection \<open>Persistence\<close>





subsection \<open>Text and numbers\<close>

lemma split_on_no_sep: "sep \<notin> set s \<Longrightarrow> split_on sep s = [s]"
  by (induction s) auto

lemma split_on_nonempty: "split_on sep s \<noteq> []"
  by (induction s) (auto split: list.split)

lemma split_on_append:
  "sep \<notin> set x \<Longrightarrow> split_on sep (x @ sep # rest) = x # split_on sep rest"
  by (induction x) (auto split: list.split)

lemma split_on_join:
  "xs \<noteq> [] \<Longrightarrow> \<forall>x\<in>set xs. sep \<notin> set x \<Longrightarrow> split_on sep (join [sep] xs) = xs"
proof (induction "[sep]" xs rule: join.induct)
  case 1
  then show ?case by simp
next
  case (2 x)
  then show ?case by (simp add: split_on_no_sep)
next
  case (3 x y ys)
  then show ?case by (simp add: split_on_append)
qed

lemma dropWhile_hd_id: "xs \<noteq> [] \<Longrightarrow> \<not> P (hd xs) \<Longrightarrow> dropWhile P xs = xs"
  by (cases xs) auto

lemma trim_id:
  assumes "s = [] \<or> (\<not> isWhiteSpace (hd s) \<and> \<not> isWhiteSpace (last s))"
  shows "trim s = s"
proof (cases "s = []")
  case True
  then show ?thesis by (simp add: trim_def)
next
  case False
  with assms have h: "\<not> isWhiteSpace (hd s)" and l: "\<not> isWhiteSpace (last s)" by auto
  have 1: "dropWhile isWhiteSpace s = s" using False h by (rule dropWhile_hd_id)
  have "rev s \<noteq> []" "\<not> isWhiteSpace (hd (rev s))" using False l by (simp_all add: hd_rev)
  then have 2: "dropWhile isWhiteSpace (rev s) = rev s" by (rule dropWhile_hd_id)
  show ?thesis by (simp add: trim_def 1 2)
qed

lemma trim_eq_Nil: "trim s = [] \<longleftrightarrow> (\<forall>c\<in>set s. isWhiteSpace c)"
proof
  assume "trim s = []"
  then have all: "\<forall>c\<in>set (dropWhile isWhiteSpace s). isWhiteSpace c"
    by (simp add: trim_def dropWhile_eq_Nil_conv)
  have "dropWhile isWhiteSpace s = []"
  proof (rule ccontr)
    assume ne: "dropWhile isWhiteSpace s \<noteq> []"
    then have "\<not> isWhiteSpace (hd (dropWhile isWhiteSpace s))" by (simp add: hd_dropWhile)
    moreover have "hd (dropWhile isWhiteSpace s) \<in> set (dropWhile isWhiteSpace s)"
      using ne by (rule hd_in_set)
    ultimately show False using all by blast
  qed
  then show "\<forall>c\<in>set s. isWhiteSpace c" by (simp add: dropWhile_eq_Nil_conv)
next
  assume "\<forall>c\<in>set s. isWhiteSpace c"
  then have d: "dropWhile isWhiteSpace s = []" by (simp add: dropWhile_eq_Nil_conv)
  show "trim s = []" unfolding trim_def d by simp
qed

lemma digit_cases: "d < 10 \<Longrightarrow> d \<in> {0, 1, 2, 3, 4, 5, 6, 7, 8, 9 :: nat}"
  by auto

lemma isDigit_digitChar: "d < 10 \<Longrightarrow> isDigit (digitChar d)"
  by (drule digit_cases) (auto simp: isDigit_def digitChar_def)

lemma digitVal_digitChar: "d < 10 \<Longrightarrow> digitVal (digitChar d) = d"
  by (drule digit_cases) (auto simp: digitVal_def digitChar_def)

lemma isDigit_not_special:
  "isDigit c \<Longrightarrow> \<not> isWhiteSpace c \<and> c \<noteq> CHR '','' \<and> c \<noteq> CHR ''\<newline>'' \<and> c \<noteq> CHR ''-'' \<and> c \<noteq> CHR ''+''"
  by (auto simp: isDigit_def isWhiteSpace_def)

lemma natToString_digits: "natToString n \<noteq> [] \<and> (\<forall>c\<in>set (natToString n). isDigit c)"
proof (induction n rule: natToString.induct)
  case (1 n)
  show ?case
  proof (cases "n < 10")
    case True
    then show ?thesis by (subst natToString.simps, subst (2) natToString.simps) (simp add: isDigit_digitChar)
  next
    case False
    then show ?thesis using 1
      by (subst natToString.simps, subst (2) natToString.simps) (auto simp: isDigit_digitChar)
  qed
qed

lemma digitsValue_snoc: "digitsValue (ds @ [c]) = 10 * digitsValue ds + digitVal c"
  by (simp add: digitsValue_def)

lemma digitsValue_natToString: "digitsValue (natToString n) = n"
proof (induction n rule: natToString.induct)
  case (1 n)
  show ?case
  proof (cases "n < 10")
    case True
    then show ?thesis by (subst natToString.simps) (simp add: digitsValue_def digitVal_digitChar)
  next
    case False
    then show ?thesis using 1
      by (subst natToString.simps) (simp add: digitsValue_snoc digitVal_digitChar)
  qed
qed

lemma takeWhile_all: "\<forall>c\<in>set s. P c \<Longrightarrow> takeWhile P s = s"
  by (induction s) auto

lemma parseInt_decimal_text: "parseInt (decimal_text n) = Some (to_number n)"
proof (cases "n < 0")
  case True
  let ?ds = "natToString (nat (- n))"
  have d: "?ds \<noteq> []" "\<forall>c\<in>set ?ds. isDigit c" using natToString_digits by blast+
  have "\<not> isWhiteSpace CHR ''-''" by (simp add: isWhiteSpace_def)
  then have "dropWhile isWhiteSpace (CHR ''-'' # ?ds) = CHR ''-'' # ?ds" by simp
  then show ?thesis using True d
    by (simp add: parseInt_def decimal_text_def Let_def takeWhile_all digitsValue_natToString)
next
  case False
  let ?ds = "natToString (nat n)"
  have d: "?ds \<noteq> []" "\<forall>c\<in>set ?ds. isDigit c" using natToString_digits by blast+
  then obtain c cs where cs: "?ds = c # cs" by (cases ?ds) auto
  then have c: "isDigit c" using d(2) by simp
  then have nw: "\<not> isWhiteSpace c" "c \<noteq> CHR ''-''" "c \<noteq> CHR ''+''"
    using isDigit_not_special by blast+
  have "dropWhile isWhiteSpace ?ds = ?ds" using cs nw by simp
  moreover have "hd ?ds = c" using cs by simp
  ultimately show ?thesis using False d nw
    by (simp add: parseInt_def decimal_text_def Let_def takeWhile_all digitsValue_natToString)
qed

lemma parseInt_numberToString:
  "safe_integer n \<Longrightarrow> parseInt (numberToString hostText n) = Some (Num n)"
  by (simp add: numberToString_def parseInt_decimal_text to_number_def)

lemma decimal_text_plain:
  "decimal_text n \<noteq> [] \<and> CHR '','' \<notin> set (decimal_text n) \<and>
   CHR ''\<newline>'' \<notin> set (decimal_text n) \<and> trim (decimal_text n) = decimal_text n"
proof -
  have chars: "\<forall>c\<in>set (decimal_text n). isDigit c \<or> c = CHR ''-''"
    using natToString_digits by (auto simp: decimal_text_def)
  have ne: "decimal_text n \<noteq> []" using natToString_digits by (auto simp: decimal_text_def)
  have nw: "\<forall>c\<in>set (decimal_text n). \<not> isWhiteSpace c \<and> c \<noteq> CHR '','' \<and> c \<noteq> CHR ''\<newline>''"
    using chars isDigit_not_special by (auto simp: isWhiteSpace_def)
  have "\<not> isWhiteSpace (hd (decimal_text n))" "\<not> isWhiteSpace (last (decimal_text n))"
    using nw hd_in_set[OF ne] last_in_set[OF ne] by blast+
  then have "trim (decimal_text n) = decimal_text n" by (simp add: trim_id)
  then show ?thesis using ne nw by auto
qed

lemma numberToString_plain:
  assumes "safe_integer n"
  shows "numberToString hostText n \<noteq> [] \<and> CHR '','' \<notin> set (numberToString hostText n) \<and>
   CHR ''\<newline>'' \<notin> set (numberToString hostText n) \<and>
   trim (numberToString hostText n) = numberToString hostText n"
  using assms decimal_text_plain[of n] by (simp add: numberToString_def)

subsection \<open>Decoding: which errors, and when\<close>

lemma every_iff: "every p xs \<longleftrightarrow> (\<forall>x\<in>set xs. p x)"
  by (induction xs) auto

lemma array_includes_iff: "array_includes xs x \<longleftrightarrow> x \<in> set xs"
  by (simp add: array_includes_def)

lemma parseCSV_short: "length (nonblank_lines content) < 2 \<Longrightarrow> parseCSV content = Inr []"
  by (simp add: parseCSV_def)

lemma parseCSV_long:
  "2 \<le> length (nonblank_lines content) \<Longrightarrow>
   parseCSV content =
     (if \<forall>h\<in>set expectedHeaders. h \<in> set (cells (hd (nonblank_lines content)))
      then parse_rows (cells (hd (nonblank_lines content))) (tl (nonblank_lines content)) 1 []
      else Inl FormatError)"
  by (simp add: parseCSV_def Let_def every_iff array_includes_iff)

lemma forEach_header_error:
  "forEach_header i values hz acc = Inl e \<Longrightarrow>
   e = TypeError \<and> (\<exists>index. (''Generation'', index) \<in> set hz \<and> \<not> index < length values) \<or>
   (\<exists>index. (''Start_Year'', index) \<in> set hz \<and>
      parseInt (cell_text (value_at values index)) = None \<and>
      e = RowParseError (i + 1) (cell_text (value_at values index)))"
proof (induction hz arbitrary: acc)
  case Nil
  then show ?case by simp
next
  case (Cons p hz)
  obtain header index where p: "p = (header, index)" by (cases p)
  show ?case
  proof (cases "if header = ''Start_Year'' then year_cell i (value_at values index)
            else if header = ''Generation'' then generation_cell (value_at values index)
            else Inr (cell_value (value_at values index))")
    case (Inl e')
    with Cons.prems p have e: "e = e'" by simp
    show ?thesis
    proof (cases "header = ''Start_Year''")
      case True
      with Inl have "year_cell i (value_at values index) = Inl e'" by simp
      then have "parseInt (cell_text (value_at values index)) = None \<and>
          e' = RowParseError (i + 1) (cell_text (value_at values index))"
        by (auto simp: year_cell_def split: option.splits)
      then show ?thesis using True p e by auto
    next
      case False
      with Inl have g: "header = ''Generation''" "generation_cell (value_at values index) = Inl e'"
        by (auto split: if_splits)
      then have "e' = TypeError \<and> \<not> index < length values"
        by (auto simp: generation_cell_def value_at_def split: option.splits if_splits)
      then show ?thesis using g p e by auto
    qed
  next
    case (Inr val)
    with Cons.prems p have "forEach_header i values hz (set_property header val acc) = Inl e"
      by simp
    from Cons.IH[OF this] show ?thesis by auto
  qed
qed

lemma forEach_header_bad_year:
  "(''Start_Year'', index) \<in> set hz \<Longrightarrow> parseInt (cell_text (value_at values index)) = None \<Longrightarrow>
   \<exists>e. forEach_header i values hz acc = Inl e"
proof (induction hz arbitrary: acc)
  case Nil
  then show ?case by simp
next
  case (Cons p hz)
  obtain header idx where p: "p = (header, idx)" by (cases p)
  show ?case
  proof (cases "p = (''Start_Year'', index)")
    case True
    then show ?thesis using Cons.prems(2) by (simp add: year_cell_def)
  next
    case False
    with Cons.prems have "(''Start_Year'', index) \<in> set hz" by simp
    from Cons.IH[OF this Cons.prems(2)] show ?thesis
      unfolding p by (auto split: sum.splits)
  qed
qed

lemma in_zip_upt:
  "(h, index) \<in> set (zip headers [0..<length headers]) \<longleftrightarrow> index < length headers \<and> headers ! index = h"
  by (auto simp: set_zip)

lemma parse_row_error:
  assumes "parse_row i headers (cells line) = Inl e"
  shows "e = TypeError \<and> length (cells line) < length headers \<or>
     (\<exists>index. bad_year_at headers line index \<and>
        e = RowParseError (i + 1) (cell_text (value_at (cells line) index)))"
  using forEach_header_error[OF assms[unfolded parse_row_def]]
  by (auto simp: in_zip_upt bad_year_at_def)

lemma parse_row_bad_year:
  assumes "bad_year headers line"
  shows "\<exists>e. parse_row i headers (cells line) = Inl e"
proof -
  from assms obtain index where "bad_year_at headers line index"
    unfolding bad_year_def by blast
  then have "(''Start_Year'', index) \<in> set (zip headers [0..<length headers])"
    and "parseInt (cell_text (value_at (cells line) index)) = None"
    by (auto simp: in_zip_upt bad_year_at_def)
  then show ?thesis unfolding parse_row_def by (rule forEach_header_bad_year)
qed

lemma parse_rows_Cons:
  "parse_rows headers (line # rest) i results =
     (if \<not> accepted_row line then parse_rows headers rest (i + 1) results
      else (case parse_row i headers (cells line) of
              Inl e \<Rightarrow> Inl e
            | Inr record \<Rightarrow> parse_rows headers rest (i + 1) (results @ [record])))"
  by (simp add: accepted_row_def Let_def not_le)

lemma parse_rows_error:
  "parse_rows headers rows i results = Inl e \<Longrightarrow>
   (\<exists>j < length rows. accepted_row (rows ! j) \<and>
      (e = TypeError \<and> length (cells (rows ! j)) < length headers \<or>
       (\<exists>index. bad_year_at headers (rows ! j) index \<and>
          e = RowParseError (i + j + 1) (cell_text (value_at (cells (rows ! j)) index)))))"
proof (induction rows arbitrary: i results)
  case Nil
  then show ?case by simp
next
  case (Cons line rest)
  show ?case
  proof (cases "accepted_row line")
    case False
    with Cons.prems have "parse_rows headers rest (i + 1) results = Inl e"
      by (simp add: parse_rows_Cons del: parse_rows.simps)
    from Cons.IH[OF this] obtain j where "j < length rest" "accepted_row (rest ! j)"
      "e = TypeError \<and> length (cells (rest ! j)) < length headers \<or>
       (\<exists>index. bad_year_at headers (rest ! j) index \<and>
          e = RowParseError (i + 1 + j + 1) (cell_text (value_at (cells (rest ! j)) index)))"
      by blast
    then show ?thesis by (intro exI[of _ "Suc j"]) auto
  next
    case True
    show ?thesis
    proof (cases "parse_row i headers (cells line)")
      case (Inl e')
      with True Cons.prems have "e = e'" by (simp add: parse_rows_Cons del: parse_rows.simps)
      with parse_row_error[OF Inl] True show ?thesis by (intro exI[of _ 0]) auto
    next
      case (Inr row)
      with True Cons.prems have "parse_rows headers rest (i + 1) (results @ [row]) = Inl e"
        by (simp add: parse_rows_Cons del: parse_rows.simps)
      from Cons.IH[OF this] obtain j where "j < length rest" "accepted_row (rest ! j)"
        "e = TypeError \<and> length (cells (rest ! j)) < length headers \<or>
         (\<exists>index. bad_year_at headers (rest ! j) index \<and>
            e = RowParseError (i + 1 + j + 1) (cell_text (value_at (cells (rest ! j)) index)))"
        by blast
      then show ?thesis by (intro exI[of _ "Suc j"]) auto
    qed
  qed
qed

lemma parse_rows_not_FormatError: "parse_rows headers rows i results \<noteq> Inl FormatError"
  using parse_rows_error[of headers rows i results FormatError] by auto

lemma parse_rows_first_bad_year:
  "k < length rows \<Longrightarrow> accepted_row (rows ! k) \<Longrightarrow> bad_year headers (rows ! k) \<Longrightarrow>
   \<forall>j<k. \<not> (accepted_row (rows ! j) \<and> bad_year headers (rows ! j)) \<Longrightarrow>
   \<exists>e. parse_rows headers rows i results = Inl e \<and>
     (e = TypeError \<and> length expectedHeaders < length headers \<or>
      (\<exists>index. bad_year_at headers (rows ! k) index \<and>
         e = RowParseError (i + k + 1) (cell_text (value_at (cells (rows ! k)) index))))"
proof (induction rows arbitrary: i results k)
  case Nil
  then show ?case by simp
next
  case (Cons line rest)
  show ?case
  proof (cases k)
    case 0
    with Cons.prems have acc: "accepted_row line" and bad: "bad_year headers line" by simp_all
    from parse_row_bad_year[OF bad] obtain e where e: "parse_row i headers (cells line) = Inl e"
      by blast
    from parse_row_error[OF e] acc
    have "e = TypeError \<and> length expectedHeaders < length headers \<or>
      (\<exists>index. bad_year_at headers line index \<and>
         e = RowParseError (i + 1) (cell_text (value_at (cells line) index)))"
      by (auto simp: accepted_row_def)
    then show ?thesis using 0 acc e by (simp add: parse_rows_Cons del: parse_rows.simps)
  next
    case (Suc k')
    with Cons.prems have k': "k' < length rest" "accepted_row (rest ! k')" "bad_year headers (rest ! k')"
      and before: "\<forall>j<k'. \<not> (accepted_row (rest ! j) \<and> bad_year headers (rest ! j))"
      and first: "\<not> (accepted_row line \<and> bad_year headers line)"
      by auto
    note IH = Cons.IH[OF k' before]
    show ?thesis
    proof (cases "accepted_row line")
      case False
      then show ?thesis using IH[of "i + 1" results] Suc
        by (simp add: parse_rows_Cons del: parse_rows.simps)
    next
      case True
      with first have nb: "\<not> bad_year headers line" by simp
      show ?thesis
      proof (cases "parse_row i headers (cells line)")
        case (Inl e)
        from parse_row_error[OF Inl] nb True
        have "e = TypeError \<and> length expectedHeaders < length headers"
          by (auto simp: bad_year_def bad_year_at_def accepted_row_def)
        then show ?thesis using True Inl by (simp add: parse_rows_Cons del: parse_rows.simps)
      next
        case (Inr row)
        then show ?thesis using True IH[of "i + 1" "results @ [row]"] Suc
          by (simp add: parse_rows_Cons del: parse_rows.simps)
      qed
    qed
  qed
qed

lemma forEach_header_frame:
  "forEach_header i values hz acc = Inr obj \<Longrightarrow> h \<notin> fst ` set hz \<Longrightarrow>
   map_of obj h = map_of acc h"
proof (induction hz arbitrary: acc)
  case Nil
  then show ?case by simp
next
  case (Cons p hz)
  obtain header index where p: "p = (header, index)" by (cases p)
  from Cons.prems(2) p have ne: "h \<noteq> header" and nin: "h \<notin> fst ` set hz" by auto
  from Cons.prems(1) p obtain val where
    rest: "forEach_header i values hz (set_property header val acc) = Inr obj"
    by (auto split: sum.splits)
  from Cons.IH[OF rest nin] ne show ?case by (simp add: set_property_def update_conv')
qed

lemma forEach_header_lookup:
  "forEach_header i values hz acc = Inr obj \<Longrightarrow> distinct (map fst hz) \<Longrightarrow>
   (h, index) \<in> set hz \<Longrightarrow> h \<noteq> ''__proto__'' \<Longrightarrow>
   decoded_cell h (value_at values index) (get_prop obj h)"
proof (induction hz arbitrary: acc)
  case Nil
  then show ?case by simp
next
  case (Cons p hz)
  obtain header idx where p: "p = (header, idx)" by (cases p)
  from Cons.prems(2) p have fresh: "header \<notin> fst ` set hz" and d: "distinct (map fst hz)"
    by auto
  from Cons.prems(1) p obtain val where
    val: "(if header = ''Start_Year'' then year_cell i (value_at values idx)
            else if header = ''Generation'' then generation_cell (value_at values idx)
            else Inr (cell_value (value_at values idx))) = Inr val"
    and rest: "forEach_header i values hz (set_property header val acc) = Inr obj"
    by (auto split: sum.splits)
  show ?case
  proof (cases "(h, index) = (header, idx)")
    case True
    have "map_of obj header = Some val"
      using forEach_header_frame[OF rest fresh] True Cons.prems(4)
      by (simp add: set_property_def update_conv')
    then have g: "get_prop obj h = val" using True by (simp add: get_prop_def)
    have "decoded_cell header (value_at values idx) val"
      using val
      by (auto simp: decoded_cell_def year_cell_def generation_cell_def
          split: if_splits option.splits)
    then show ?thesis using True g by simp
  next
    case False
    with Cons.prems(3) p have "(h, index) \<in> set hz" by auto
    from Cons.IH[OF rest d this Cons.prems(4)] show ?thesis .
  qed
qed

lemma parse_row_lookup:
  assumes "parse_row i headers values = Inr obj" "distinct headers" "index < length headers"
    and "headers ! index \<noteq> ''__proto__''"
  shows "decoded_cell (headers ! index) (value_at values index) (get_prop obj (headers ! index))"
proof -
  have "distinct (map fst (zip headers [0..<length headers]))" using assms(2) by simp
  moreover have "(headers ! index, index) \<in> set (zip headers [0..<length headers])"
    using assms(3) by (simp add: in_zip_upt)
  ultimately show ?thesis
    using assms(1,4) unfolding parse_row_def by (intro forEach_header_lookup)
qed

lemma import_aborted:
  "parseCSV content = Inl e \<Longrightarrow>
   handleImportCSV lc db content = Aborted e \<and> import_step lc content st = Some st"
  by (simp add: handleImportCSV_def import_step_def)

text \<open>
  Claim C2, as amended. \<open>parseCSV\<close> fails with the header error exactly when the input has
  at least two non-blank lines and the trimmed cells of its first non-blank line, taken
  as a set, lack one of the six expected names; more columns and another order are
  accepted. An input with fewer than two non-blank lines is decoded to the empty list,
  with no error. When \<open>parseCSV\<close> fails with the header error the import is aborted and
  the store is left as it was. A row that is decoded is read by header name: under
  each header of a row of distinct headers, the name \<open>__proto__\<close> apart, the decoded
  object holds the cell of that column (as \<open>parseInt\<close> reads it under \<open>Start_Year\<close>,
  normalised under \<open>Generation\<close>).
\<close>

theorem parseCSV_FormatError_iff:
  "(parseCSV content = Inl FormatError \<longleftrightarrow>
      2 \<le> length (nonblank_lines content) \<and>
      \<not> (\<forall>h\<in>set expectedHeaders. h \<in> set (cells (hd (nonblank_lines content))))) \<and>
   (length (nonblank_lines content) < 2 \<longrightarrow> parseCSV content = Inr []) \<and>
   (parseCSV content = Inl FormatError \<longrightarrow>
      handleImportCSV lc db content = Aborted FormatError \<and>
      import_step lc content st = Some st) \<and>
   (parse_row i headers values = Inr decoded \<and> distinct headers \<and> index < length headers \<and>
    headers ! index \<noteq> ''__proto__'' \<longrightarrow>
      decoded_cell (headers ! index) (value_at values index) (get_prop decoded (headers ! index)))"
proof (intro conjI impI)
  show "parseCSV content = Inl FormatError \<longleftrightarrow>
      2 \<le> length (nonblank_lines content) \<and>
      \<not> (\<forall>h\<in>set expectedHeaders. h \<in> set (cells (hd (nonblank_lines content))))"
  proof (cases "2 \<le> length (nonblank_lines content)")
    case True
    then show ?thesis
      by (simp only: parseCSV_long[OF True] split: if_split) (simp add: parse_rows_not_FormatError)
  next
    case False
    then have "parseCSV content = Inr []" by (simp add: parseCSV_short)
    with False show ?thesis by simp
  qed
  show "parseCSV content = Inr []" if "length (nonblank_lines content) < 2"
    using that by (rule parseCSV_short)
  show "handleImportCSV lc db content = Aborted FormatError" "import_step lc content st = Some st"
    if "parseCSV content = Inl FormatError"
    using import_aborted[OF that] by blast+
  show "decoded_cell (headers ! index) (value_at values index) (get_prop decoded (headers ! index))"
    if "parse_row i headers values = Inr decoded \<and> distinct headers \<and> index < length headers \<and>
      headers ! index \<noteq> ''__proto__''"
    using that parse_row_lookup by blast
qed

theorem parseCSV_FormatError_iff_witness:
  "parseCSV ''Manufacturer,Model,Start_Year\<newline>Toyota,Corolla,2018'' = Inl FormatError \<and>
   import_step (\<lambda>a b. 0) ''Manufacturer,Model,Start_Year\<newline>Toyota,Corolla,2018''
     \<lparr>database = [bmw_3_series], saved = None\<rparr>
     = Some \<lparr>database = [bmw_3_series], saved = None\<rparr> \<and>
   parseCSV ''End_Year,Start_Year,Model_Code,Generation,Model,Manufacturer,Notes\<newline>Present,2018,G20,7,3 Series,BMW,x''
     \<noteq> Inl FormatError \<and>
   get_prop
     [(''End_Year'', Str ''Present''), (''Start_Year'', Num 2018), (''Model_Code'', Str ''G20''),
      (''Generation'', Str ''7''), (''Model'', Str ''3 Series''), (''Manufacturer'', Str ''BMW''),
      (''Notes'', Str ''x'')] ''Manufacturer'' = Str ''BMW''"
proof -
  let ?c = "''Manufacturer,Model,Start_Year\<newline>Toyota,Corolla,2018''"
  let ?d = "''End_Year,Start_Year,Model_Code,Generation,Model,Manufacturer,Notes\<newline>Present,2018,G20,7,3 Series,BMW,x''"
  let ?h = "cells ''End_Year,Start_Year,Model_Code,Generation,Model,Manufacturer,Notes''"
  let ?v = "cells ''Present,2018,G20,7,3 Series,BMW,x''"
  let ?o = "[(''End_Year'', Str ''Present''), (''Start_Year'', Num 2018), (''Model_Code'', Str ''G20''),
      (''Generation'', Str ''7''), (''Model'', Str ''3 Series''), (''Manufacturer'', Str ''BMW''),
      (''Notes'', Str ''x'')]"
  have two: "2 \<le> length (nonblank_lines ?c)" by code_simp
  have missing: "\<not> (\<forall>h\<in>set expectedHeaders. h \<in> set (cells (hd (nonblank_lines ?c))))"
    by code_simp
  have present: "\<forall>h\<in>set expectedHeaders. h \<in> set (cells (hd (nonblank_lines ?d)))"
    by code_simp
  have row: "parse_row 1 ?h ?v = Inr ?o" by code_simp
  have dist: "distinct ?h" by code_simp
  have col: "5 < length ?h" by code_simp
  have at: "?h ! 5 = ''Manufacturer''" "value_at ?v 5 = Some ''BMW''" by code_simp+
  note t = parseCSV_FormatError_iff[of ?c "\<lambda>a b. 0" "[bmw_3_series]"
      "\<lparr>database = [bmw_3_series], saved = None\<rparr>" 1 ?h ?v ?o 5]
  have 1: "parseCSV ?c = Inl FormatError" using t two missing by blast
  have 2: "import_step (\<lambda>a b. 0) ?c \<lparr>database = [bmw_3_series], saved = None\<rparr>
     = Some \<lparr>database = [bmw_3_series], saved = None\<rparr>" using t 1 by blast
  have 3: "parseCSV ?d \<noteq> Inl FormatError"
    using parseCSV_FormatError_iff[of ?d "\<lambda>a b. 0" "[]" "\<lparr>database = [], saved = None\<rparr>"] present
    by blast
  have "decoded_cell (?h ! 5) (value_at ?v 5) (get_prop ?o (?h ! 5))"
    using t row dist col at(1) by auto
  then have 4: "get_prop ?o ''Manufacturer'' = Str ''BMW''"
    unfolding at by (simp add: decoded_cell_def cell_value_def)
  from 1 2 3 4 show ?thesis by (intro conjI)
qed

text \<open>
  The claim as stated fails on an input of fewer than two non-blank lines: the header row
  \<open>Manufacturer,Model,Start_Year\<close> alone, which also lacks three names, is decoded to the
  empty list and the import goes on with no record.
\<close>

theorem parseCSV_short_input_counterexample:
  "length (nonblank_lines ''Manufacturer,Model,Start_Year'') = 1 \<and>
   parseCSV ''Manufacturer,Model,Start_Year'' = Inr [] \<and>
   handleImportCSV (\<lambda>a b. 0) [] ''Manufacturer,Model,Start_Year'' = Imported []"
  by code_simp

text \<open>
  What the decoder does with a year that \<open>parseInt\<close> cannot read. Take an input with at
  least two non-blank lines and a valid header, and let row \<open>k\<close> (counted from 0 among the
  non-blank lines after the header) be the first row of at least six cells with such a
  year. Then \<open>parseCSV\<close> throws, the import is aborted and the store is left as it was. The
  error holds the number \<open>k + 2\<close> and the text of the cell, unless the header has more than
  six columns and the error is the \<open>TypeError\<close> of an absent generation cell.
\<close>

lemma parseCSV_bad_year:
  assumes "2 \<le> length (nonblank_lines content)"
    and "headers = cells (hd (nonblank_lines content))"
    and "rows = tl (nonblank_lines content)"
    and "\<forall>h\<in>set expectedHeaders. h \<in> set headers"
    and "k < length rows" and "accepted_row (rows ! k)" and "bad_year headers (rows ! k)"
    and "\<forall>j<k. \<not> (accepted_row (rows ! j) \<and> bad_year headers (rows ! j))"
  shows "\<exists>e. parseCSV content = Inl e \<and>
     (e = TypeError \<and> length expectedHeaders < length headers \<or>
      (\<exists>index. bad_year_at headers (rows ! k) index \<and>
         e = RowParseError (k + 2) (cell_text (value_at (cells (rows ! k)) index)))) \<and>
     handleImportCSV lc db content = Aborted e \<and>
     import_step lc content st = Some st"
proof -
  have p: "parseCSV content = parse_rows headers rows 1 []"
    using assms(2,3,4) by (simp add: parseCSV_long[OF assms(1)])
  from parse_rows_first_bad_year[OF assms(5,6,7,8), of 1 "[]"]
  obtain e where e: "parse_rows headers rows 1 [] = Inl e"
    "e = TypeError \<and> length expectedHeaders < length headers \<or>
      (\<exists>index. bad_year_at headers (rows ! k) index \<and>
         e = RowParseError (1 + k + 1) (cell_text (value_at (cells (rows ! k)) index)))"
    by blast
  have "parseCSV content = Inl e" using p e(1) by simp
  from this import_aborted[OF this, of lc db st] e(2) show ?thesis by auto
qed

text \<open>
  Claim C6. The claim says that the error names the 1-based line number of the row. The
  message is built from \<open>i + 1\<close>, where \<open>i\<close> counts the lines left after the blank ones were
  filtered out, so a blank line before the row makes the number too small. In the text
  below the row with the year \<open>abc\<close> is the fifth line (index 4 of the split text) and
  the error names 3. The import is aborted and the store is left as it was, as the claim
  says.
\<close>

theorem parseCSV_line_number_skips_blank_lines:
  "split_on CHR ''\<newline>''
     ''Manufacturer,Model,Generation,Model_Code,Start_Year,End_Year\<newline>\<newline>Toyota,Corolla,12,E210,2018,Present\<newline>\<newline>Toyota,Corolla,Mk5,E210,abc,Present''
     ! 4 = ''Toyota,Corolla,Mk5,E210,abc,Present'' \<and>
   parseCSV
     ''Manufacturer,Model,Generation,Model_Code,Start_Year,End_Year\<newline>\<newline>Toyota,Corolla,12,E210,2018,Present\<newline>\<newline>Toyota,Corolla,Mk5,E210,abc,Present''
     = Inl (RowParseError 3 ''abc'') \<and>
   import_step (\<lambda>a b. 0)
     ''Manufacturer,Model,Generation,Model_Code,Start_Year,End_Year\<newline>\<newline>Toyota,Corolla,12,E210,2018,Present\<newline>\<newline>Toyota,Corolla,Mk5,E210,abc,Present''
     \<lparr>database = [bmw_3_series], saved = None\<rparr>
     = Some \<lparr>database = [bmw_3_series], saved = None\<rparr>"
  by code_simp

subsection \<open>Encoding and decoding again\<close>

lemma row_text: 
  "map (\<lambda>header. join_text hostText (get_field r header)) expectedHeaders = row_cells hostText r"
  by (simp add: expectedHeaders_def get_field_def join_text_def toString_def row_cells_def)

lemma convertToCSV_rows:
  "convertToCSV hostText D = join ''\<newline>'' (join '','' expectedHeaders # map (\<lambda>r. join '','' (row_cells hostText r)) D)"
  by (simp add: convertToCSV_def Let_def row_text)

lemma row_cells_plain:
  assumes "codec_safe r"
  shows "\<forall>f\<in>set (row_cells hostText r). CHR '','' \<notin> set f \<and> CHR ''\<newline>'' \<notin> set f \<and> trim f = f"
  using assms numberToString_plain[of "Start_Year r" hostText]
  by (simp add: row_cells_def codec_safe_def plain_text_def)

lemma cells_row:
  assumes "codec_safe r"
  shows "cells (join '','' (row_cells hostText r)) = row_cells hostText r"
proof -
  have ne: "row_cells hostText r \<noteq> []" by (simp add: row_cells_def)
  have "split_on CHR '','' (join [CHR '',''] (row_cells hostText r)) = row_cells hostText r"
    using ne row_cells_plain[OF assms] by (intro split_on_join) auto
  moreover have "map trim (row_cells hostText r) = row_cells hostText r"
    using row_cells_plain[OF assms] by (simp add: map_idI)
  ultimately show ?thesis by (simp add: cells_def)
qed

lemma cells_header: "cells (join '','' expectedHeaders) = expectedHeaders"
  by code_simp

lemma zip_expected:
  "zip expectedHeaders [0..<length expectedHeaders] =
     [(''Manufacturer'', 0), (''Model'', 1), (''Generation'', 2), (''Model_Code'', 3),
      (''Start_Year'', 4), (''End_Year'', 5)]"
  by code_simp

lemma parse_row_cells:
  assumes "codec_safe r"
  shows "parse_row i expectedHeaders (row_cells hostText r) = Inr (toObj r)"
proof -
  have g: "cleanGeneration (Generation r) = Generation r"
    and y: "parseInt (numberToString hostText (Start_Year r)) = Some (Num (Start_Year r))"
    using assms by (simp_all add: codec_safe_def parseInt_numberToString)
  show ?thesis
    unfolding parse_row_def zip_expected
    by (simp add: row_cells_def value_at_def year_cell_def generation_cell_def cell_text_def
        cell_value_def set_property_def y g toObj_def expectedHeaders_def get_field_def)
qed

lemma accepted_row_cells:
  assumes "codec_safe r"
  shows "accepted_row (join '','' (row_cells hostText r))"
  unfolding accepted_row_def cells_row[OF assms] by (simp add: row_cells_def expectedHeaders_def)

lemma parse_rows_round_trip:
  "\<forall>r\<in>set D. codec_safe r \<Longrightarrow>
   parse_rows expectedHeaders (map (\<lambda>r. join '','' (row_cells hostText r)) D) i results
     = Inr (results @ map toObj D)"
proof (induction D arbitrary: i results)
  case Nil
  then show ?case by simp
next
  case (Cons r D)
  then have r: "codec_safe r" and D: "\<forall>r\<in>set D. codec_safe r" by simp_all
  show ?case
    using accepted_row_cells[OF r] Cons.IH[OF D, of "i + 1" "results @ [toObj r]"]
    by (simp add: parse_rows_Cons cells_row[OF r] parse_row_cells[OF r] del: parse_rows.simps)
qed

lemma row_line_plain:
  assumes "codec_safe r"
  shows "CHR ''\<newline>'' \<notin> set (join '','' (row_cells hostText r)) \<and> trim (join '','' (row_cells hostText r)) \<noteq> []"
proof -
  have nl: "CHR ''\<newline>'' \<notin> set (join '','' (row_cells hostText r))"
    using row_cells_plain[OF assms] by (simp add: row_cells_def)
  have "CHR '','' \<in> set (join '','' (row_cells hostText r))" by (simp add: row_cells_def)
  moreover have "\<not> isWhiteSpace CHR '',''" by (simp add: isWhiteSpace_def)
  ultimately have "trim (join '','' (row_cells hostText r)) \<noteq> []" unfolding trim_eq_Nil by blast
  with nl show ?thesis by simp
qed

lemma header_line_plain:
  "CHR ''\<newline>'' \<notin> set (join '','' expectedHeaders) \<and> trim (join '','' expectedHeaders) \<noteq> []"
  by code_simp

lemma nonblank_lines_convertToCSV:
  assumes "\<forall>r\<in>set D. codec_safe r"
  shows "nonblank_lines (convertToCSV hostText D)
     = join '','' expectedHeaders # map (\<lambda>r. join '','' (row_cells hostText r)) D"
proof -
  let ?lines = "join '','' expectedHeaders # map (\<lambda>r. join '','' (row_cells hostText r)) D"
  have all: "\<forall>l\<in>set ?lines. CHR ''\<newline>'' \<notin> set l \<and> trim l \<noteq> []"
    using assms row_line_plain header_line_plain by auto
  have "split_on CHR ''\<newline>'' (join [CHR ''\<newline>''] ?lines) = ?lines"
    using all by (intro split_on_join) auto
  moreover have "filter (\<lambda>line. trim line \<noteq> []) ?lines = ?lines"
    using all by (intro filter_True) auto
  ultimately show ?thesis
    unfolding nonblank_lines_def convertToCSV_rows by simp
qed

lemma asVehicleRecord_toObj: "asVehicleRecord (toObj r) = Some r"
  by (simp add: asVehicleRecord_def toObj_def expectedHeaders_def get_field_def get_prop_def
      as_text_def as_number_def)

text \<open>
  Claim C3, as amended. For every dataset whose records have text fields with no comma,
  no line break and no white space at either end, a generation that is already
  normalised and a start year that is a safe integer, decoding the encoding gives back
  the records of the dataset, one object per record in the same order, each with the six
  fields of its record. The dataset need not be sorted or free of duplicates for this.
\<close>

theorem codec_round_trip:
  assumes "\<forall>r\<in>set D. codec_safe r"
  shows "parseCSV (convertToCSV hostText D) = Inr (map toObj D) \<and>
         map asVehicleRecord (map toObj D) = map Some D"
proof
  show "parseCSV (convertToCSV hostText D) = Inr (map toObj D)"
  proof (cases D)
    case Nil
    then have "length (nonblank_lines (convertToCSV hostText D)) < 2"
      using nonblank_lines_convertToCSV[of D hostText] by simp
    then show ?thesis using Nil by (simp add: parseCSV_short)
  next
    case (Cons r D')
    have lines: "nonblank_lines (convertToCSV hostText D)
       = join '','' expectedHeaders # map (\<lambda>r. join '','' (row_cells hostText r)) D"
      using assms by (rule nonblank_lines_convertToCSV)
    then have two: "2 \<le> length (nonblank_lines (convertToCSV hostText D))" using Cons by simp
    show ?thesis
      unfolding parseCSV_long[OF two] lines
      using parse_rows_round_trip[OF assms, where i = 1 and results = "[]"] by (simp add: cells_header)
  qed
  show "map asVehicleRecord (map toObj D) = map Some D"
    by (simp add: asVehicleRecord_toObj)
qed

theorem codec_round_trip_witness:
  "parseCSV (convertToCSV (\<lambda>v. []) (INTERNAL_DB_MAIN @ INTERNAL_DB_PREMIUM))
     = Inr (map toObj (INTERNAL_DB_MAIN @ INTERNAL_DB_PREMIUM))"
proof -
  have "\<forall>r\<in>set (INTERNAL_DB_MAIN @ INTERNAL_DB_PREMIUM). codec_safe r" by code_simp
  from codec_round_trip[OF this, of "\<lambda>v. []"] show ?thesis by blast
qed

text \<open>
  The claim as stated fails for a field with white space at its end: the decoder trims
  every cell, so the model \<open>3 Series\<close> followed by a space comes back without the space.
  The dataset of this one record is sorted, has no duplicate, no comma in a field and
  a normalised generation. It fails as well for a start year of \<open>10^21\<close>, which the engine
  prints as \<open>1e+21\<close>: the decoder reads the year 1 from that text.
\<close>

theorem codec_round_trip_counterexample:
  "parseCSV (convertToCSV (\<lambda>v. ''1e+21'') [bmw_3_series\<lparr>Model := ''3 Series ''\<rparr>])
     = Inr [toObj bmw_3_series] \<and>
   parseCSV (convertToCSV (\<lambda>v. ''1e+21'') [bmw_3_series\<lparr>Model := ''3 Series ''\<rparr>])
     \<noteq> Inr (map toObj [bmw_3_series\<lparr>Model := ''3 Series ''\<rparr>]) \<and>
   CHR '','' \<notin> set (Model (bmw_3_series\<lparr>Model := ''3 Series ''\<rparr>)) \<and>
   cleanGeneration (Generation (bmw_3_series\<lparr>Model := ''3 Series ''\<rparr>))
     = Generation (bmw_3_series\<lparr>Model := ''3 Series ''\<rparr>) \<and>
   parseCSV (convertToCSV (\<lambda>v. ''1e+21'') [bmw_3_series\<lparr>Start_Year := 1000000000000000000000\<rparr>])
     = Inr [toObj (bmw_3_series\<lparr>Start_Year := 1\<rparr>)]"
  by code_simp

end
